(* ===== verification/Prelude.thy ===== *)
theory Prelude
  imports Main "HOL-Library.Word" "HOL-Library.Signed_Division" "HOL-Library.Multiset"
begin

text \<open>
  What every component of the fan daemon shares: the run-time faults of C as values, sequencing and
  for-each loops over a state that may fault, the Hoare-style predicate \<open>post\<close> with its rules (one
  rule per construct, collected in \<open>post_intros\<close>), and C's 32-bit integer arithmetic.
\<close>

named_theorems post_intros \<open>introduction rules that walk a faulting program\<close>

section \<open>Faults, sequencing, loops\<close>

text \<open>
  A C operation either completes or has undefined behaviour. The kinds that the sources can run into
  are values, so that "the daemon does not crash" is a statement about results.
\<close>

datatype fault =
    NullDeref        \<comment> \<open>a NULL pointer is dereferenced\<close>
  | UseAfterFree     \<comment> \<open>a pointer to a freed block is dereferenced\<close>
  | SignedOverflow   \<comment> \<open>an \<open>int\<close> operation leaves the range of \<open>int\<close>\<close>
  | AssertFailure    \<comment> \<open>\<open>assert(0)\<close>\<close>

definition and_then :: "'e + 'a \<Rightarrow> ('a \<Rightarrow> 'e + 'b) \<Rightarrow> 'e + 'b" where
  "and_then r k = (case r of Inl e \<Rightarrow> Inl e | Inr x \<Rightarrow> k x)"

definition deref :: "fault \<Rightarrow> 'a option \<Rightarrow> fault + 'a" where
  "deref e p = (case p of None \<Rightarrow> Inl e | Some x \<Rightarrow> Inr x)"

primrec foreach :: "('x \<Rightarrow> 'st \<Rightarrow> 'e + 'st) \<Rightarrow> 'x list \<Rightarrow> 'st \<Rightarrow> 'e + 'st" where
  "foreach f [] st = Inr st"
| "foreach f (x # xs) st = and_then (f x st) (foreach f xs)"

lemma and_then_simps [simp]:
  "and_then (Inl e) k = Inl e"
  "and_then (Inr x) k = k x"
  by (simp_all add: and_then_def)

lemma deref_simps [simp]:
  "deref e None = Inl e"
  "deref e (Some x) = Inr x"
  by (simp_all add: deref_def)

lemma and_then_Inr_iff: "and_then r k = Inr y \<longleftrightarrow> (\<exists>x. r = Inr x \<and> k x = Inr y)"
  by (cases r) auto

lemma and_then_Inl_iff: "and_then r k = Inl e \<longleftrightarrow> r = Inl e \<or> (\<exists>x. r = Inr x \<and> k x = Inl e)"
  by (cases r) auto

lemma deref_Inl_iff: "deref e p = Inl e' \<longleftrightarrow> p = None \<and> e' = e"
  by (cases p) auto

lemma deref_Inr_iff [simp]: "deref e p = Inr x \<longleftrightarrow> p = Some x"
  by (cases p) auto

lemma foreach_append: "foreach f (xs @ ys) st = and_then (foreach f xs st) (foreach f ys)"
proof (induction xs arbitrary: st)
  case (Cons x xs)
  then show ?case by (cases "f x st") auto
qed simp

section \<open>Postconditions\<close>

text \<open>
  \<open>post F Q r\<close>: the outcome \<open>r\<close> is a fault of \<open>F\<close>, or a result that satisfies \<open>Q\<close>. With
  \<open>F = UNIV\<close> it is partial correctness, with \<open>F = {}\<close> it also says that there is no fault.
\<close>

definition post :: "fault set \<Rightarrow> ('a \<Rightarrow> bool) \<Rightarrow> fault + 'a \<Rightarrow> bool" where
  "post F Q r = (case r of Inl e \<Rightarrow> e \<in> F | Inr x \<Rightarrow> Q x)"

lemma post_simps [simp]:
  "post F Q (Inl e) \<longleftrightarrow> e \<in> F"
  "post F Q (Inr x) \<longleftrightarrow> Q x"
  by (simp_all add: post_def)

lemma post_InrI [post_intros]: "Q x \<Longrightarrow> post F Q (Inr x)"
  by simp

lemma post_weaken: "post F Q r \<Longrightarrow> (\<And>x. Q x \<Longrightarrow> R x) \<Longrightarrow> F \<subseteq> G \<Longrightarrow> post G R r"
  by (cases r) auto

lemma post_mono: "post F Q r \<Longrightarrow> (\<And>x. r = Inr x \<Longrightarrow> Q x \<Longrightarrow> R x) \<Longrightarrow> post F R r"
  by (cases r) auto

lemma post_conj: "post F Q r \<Longrightarrow> post UNIV R r \<Longrightarrow> post F (\<lambda>x. Q x \<and> R x) r"
  by (cases r) auto

lemma post_total: "post {} Q r \<Longrightarrow> \<exists>x. r = Inr x \<and> Q x"
  by (cases r) auto

lemma post_and_then:
  "post F Q r \<Longrightarrow> (\<And>x. r = Inr x \<Longrightarrow> Q x \<Longrightarrow> post F R (k x)) \<Longrightarrow> post F R (and_then r k)"
  by (cases r) auto

lemma post_and_then_eq [post_intros]:
  "post F (\<lambda>x. post F R (k x)) r \<Longrightarrow> post F R (and_then r k)"
  by (cases r) auto

lemma post_deref [post_intros]:
  "(p = None \<Longrightarrow> e \<in> F) \<Longrightarrow> (\<And>x. p = Some x \<Longrightarrow> Q x) \<Longrightarrow> post F Q (deref e p)"
  by (cases p) auto

lemma post_foreach:
  assumes "I st"
    and "\<And>x s. x \<in> set xs \<Longrightarrow> I s \<Longrightarrow> post F I (f x s)"
  shows "post F I (foreach f xs st)"
  using assms
proof (induction xs arbitrary: st)
  case (Cons x xs)
  have "post F I (f x st)" using Cons.prems by simp
  then have "post F I (and_then (f x st) (foreach f xs))"
    by (rule post_and_then, intro Cons.IH) (use Cons.prems in auto)
  then show ?case by simp
qed simp

text \<open>The invariant of a loop that also depends on what is still to do.\<close>

lemma post_foreach_todo:
  assumes "I xs st"
    and "\<And>x ys s. \<exists>zs. xs = zs @ x # ys \<Longrightarrow> I (x # ys) s \<Longrightarrow> post F (I ys) (f x s)"
  shows "post F (I []) (foreach f xs st)"
proof -
  have "\<exists>zs. xs = zs @ ys \<Longrightarrow> I ys s \<Longrightarrow> post F (I []) (foreach f ys s)" for ys s
  proof (induction ys arbitrary: s)
    case (Cons y ys)
    then have "post F (I ys) (f y s)" by (auto intro: assms(2))
    moreover from Cons.prems(1) obtain zs where "xs = (zs @ [y]) @ ys" by auto
    then have "post F (I []) (foreach f ys s')" if "I ys s'" for s'
      using that by (intro Cons.IH) blast+
    ultimately have "post F (I []) (and_then (f y s) (foreach f ys))"
      by (rule post_and_then) simp
    then show ?case by simp
  qed simp
  then show ?thesis using assms(1) by force
qed

text \<open>A loop whose iterations each add to what has been achieved.\<close>

lemma post_foreach_acc:
  assumes "\<And>x D s. x \<in> set xs \<Longrightarrow> I D s \<Longrightarrow> post F (I (D \<union> g x)) (f x s)"
  shows "I D st \<Longrightarrow> post F (I (D \<union> (\<Union>x \<in> set xs. g x))) (foreach f xs st)"
  using assms
proof (induction xs arbitrary: D st)
  case (Cons x xs)
  have "post F (I (D \<union> g x)) (f x st)" using Cons.prems by simp
  then have "post F (I (D \<union> g x \<union> (\<Union>x \<in> set xs. g x))) (and_then (f x st) (foreach f xs))"
    by (rule post_and_then, intro Cons.IH) (use Cons.prems(2) in auto)
  then show ?case by (simp add: Un_assoc)
qed simp

section \<open>Filtering an optional value\<close>

definition opt_filter :: "('a \<Rightarrow> bool) \<Rightarrow> 'a option \<Rightarrow> 'a option" where
  "opt_filter Q x = (case x of None \<Rightarrow> None | Some y \<Rightarrow> if Q y then Some y else None)"

lemma opt_filter_simps [simp]:
  "opt_filter Q None = None"
  "opt_filter Q (Some y) = (if Q y then Some y else None)"
  "opt_filter (\<lambda>_. True) x = x"
  by (simp_all add: opt_filter_def split: option.split)

lemma opt_filter_Some_iff [simp]: "opt_filter Q x = Some y \<longleftrightarrow> x = Some y \<and> Q y"
  by (cases x) auto

lemma opt_filter_filter: "opt_filter Q (opt_filter R x) = opt_filter (\<lambda>y. R y \<and> Q y) x"
  by (cases x) auto

lemma opt_filter_cong: "x = x' \<Longrightarrow> (\<And>y. x' = Some y \<Longrightarrow> Q y = R y) \<Longrightarrow> opt_filter Q x = opt_filter R x'"
  by (cases x') auto

section \<open>C integers\<close>

text \<open>
  \<open>unsigned char\<close>, \<open>uint32_t\<close> and \<open>int\<close>. Unsigned arithmetic wraps, as word arithmetic does. An
  \<open>int\<close> is the same 32 bits read by \<open>sint\<close>; a signed product or quotient out of range is a fault.
\<close>

type_synonym u8 = "8 word"
type_synonym u32 = "32 word"
type_synonym s32 = "32 word"

definition int_min :: int where "int_min = - (2 ^ 31)"
definition int_max :: int where "int_max = 2 ^ 31 - 1"

definition c_int_of :: "int \<Rightarrow> fault + s32" where
  "c_int_of i = (if int_min \<le> i \<and> i \<le> int_max then Inr (word_of_int i) else Inl SignedOverflow)"

definition c_mul :: "s32 \<Rightarrow> s32 \<Rightarrow> fault + s32" where
  "c_mul a b = c_int_of (sint a * sint b)"

text \<open>C's division truncates towards zero; \<open>sdiv\<close> is that division on \<open>int\<close>.\<close>

definition c_div :: "s32 \<Rightarrow> s32 \<Rightarrow> fault + s32" where
  "c_div a b = (if b = 0 then Inl SignedOverflow else c_int_of (sint a sdiv sint b))"

lemma sint_word_of_int_in_range:
  "int_min \<le> i \<Longrightarrow> i \<le> int_max \<Longrightarrow> sint (word_of_int i :: s32) = i"
  by (simp add: sint_sbintrunc' signed_take_bit_int_eq_self_iff int_min_def int_max_def)

text \<open>An unsigned value below \<open>2 ^ 31\<close> keeps its value when it is read as an \<open>int\<close>.\<close>

lemma sint_eq_int_unat: "unat c < 2 ^ 31 \<Longrightarrow> sint (c :: s32) = int (unat c)"
proof -
  assume "unat c < 2 ^ 31"
  then have "int (unat c) < int (2 ^ 31)" by (simp only: of_nat_less_iff)
  then have "int (unat c) < 2 ^ 31" by simp
  then have "uint c < 2 ^ 31" by (simp only: uint_nat)
  then have "signed_take_bit 31 (uint c) = uint c"
    by (intro signed_take_bit_int_eq_self) (simp_all add: order.trans [OF _ uint_ge_0])
  then show ?thesis by (simp add: sint_uint)
qed

lemma c_int_of_Inr: "c_int_of i = Inr r \<longleftrightarrow> int_min \<le> i \<and> i \<le> int_max \<and> sint r = i"
proof
  assume "c_int_of i = Inr r"
  then show "int_min \<le> i \<and> i \<le> int_max \<and> sint r = i"
    by (auto simp: c_int_of_def sint_word_of_int_in_range split: if_splits)
next
  assume "int_min \<le> i \<and> i \<le> int_max \<and> sint r = i"
  then show "c_int_of i = Inr r" by (auto simp: c_int_of_def)
qed

lemma post_c_int_of [post_intros]:
  "SignedOverflow \<in> F \<Longrightarrow> (\<And>r. sint r = i \<Longrightarrow> Q r) \<Longrightarrow> post F Q (c_int_of i)"
  by (simp add: c_int_of_def sint_word_of_int_in_range)

lemma post_c_mul [post_intros]:
  "SignedOverflow \<in> F \<Longrightarrow> (\<And>r. sint r = sint a * sint b \<Longrightarrow> Q r) \<Longrightarrow> post F Q (c_mul a b)"
  by (simp add: c_mul_def post_c_int_of)

lemma post_c_div [post_intros]:
  "SignedOverflow \<in> F \<Longrightarrow> (\<And>r. sint r = sint a sdiv sint b \<Longrightarrow> Q r) \<Longrightarrow> post F Q (c_div a b)"
  by (simp add: c_div_def post_c_int_of)

end
