(* ===== verification/Enum_Table.thy ===== *)
theory Enum_Table
  imports Prelude
begin

text \<open>
  The shape that \<open>fanspeed.c\<close>, \<open>fandirection.c\<close> and \<open>fanstatus.c\<close> share: a static table of names
  indexed by the value of an enum, a linear search from a name to a value, and a range-checked read
  from a value to a name. The locale states what a client may rely on; each of the three theories
  interprets it on its own functions.
\<close>

text \<open>The search loop \<open>for (i = 0; i < n; i++) if (strcmp(table[i], name) == 0) return i;\<close>.\<close>

primrec table_search :: "string list \<Rightarrow> string \<Rightarrow> nat \<Rightarrow> nat option" where
  "table_search [] name i = None"
| "table_search (t # ts) name i = (if t = name then Some i else table_search ts name (Suc i))"

lemma table_search_None: "table_search ts name i = None \<longleftrightarrow> name \<notin> set ts"
  by (induction ts arbitrary: i) auto

lemma table_search_nth:
  "distinct ts \<Longrightarrow> k < length ts \<Longrightarrow> table_search ts (ts ! k) i = Some (i + k)"
proof (induction ts arbitrary: i k)
  case (Cons t ts)
  then show ?case by (cases k) (auto simp: nth_mem)
qed simp

locale enum_table =
  fixes table :: "string list"
    and val :: "'e \<Rightarrow> int"
    and of_val :: "int \<Rightarrow> 'e"
    and absent :: 'e
    and fallback :: nat
    and of_string :: "string option \<Rightarrow> 'e"
    and to_string :: "'e \<Rightarrow> string"
  assumes table_distinct: "distinct table"
    and fallback_in_table: "fallback < length table"
    and val_of_val: "0 \<le> i \<Longrightarrow> i < int (length table) \<Longrightarrow> val (of_val i) = i"
    and of_val_val: "of_val (val e) = e"
    and of_string_eq: "of_string s = (case s of None \<Rightarrow> absent | Some n \<Rightarrow>
          (case table_search table n 0 of None \<Rightarrow> absent | Some i \<Rightarrow> of_val (int i)))"
    and to_string_eq: "to_string e = (if 0 \<le> val e \<and> val e < int (length table)
          then table ! nat (val e) else table ! fallback)"
begin

definition named :: "'e \<Rightarrow> bool" where
  "named e \<longleftrightarrow> 0 \<le> val e \<and> val e < int (length table)"

lemma to_string_in_table: "to_string e \<in> set table"
  using fallback_in_table by (auto simp: to_string_eq)

lemma of_string_to_string: "named e \<Longrightarrow> of_string (Some (to_string e)) = e"
proof -
  assume e: "named e"
  then have "nat (val e) < length table" by (auto simp: named_def)
  from table_search_nth [OF table_distinct this, of 0] e show ?thesis
    by (simp add: of_string_eq to_string_eq named_def of_val_val)
qed

lemma of_string_known: "n \<in> set table \<Longrightarrow> named (of_string (Some n)) \<and> to_string (of_string (Some n)) = n"
proof -
  assume "n \<in> set table"
  then obtain k where k: "k < length table" "table ! k = n" by (auto simp: in_set_conv_nth)
  from table_search_nth [OF table_distinct k(1), of 0] k show ?thesis
    by (simp add: of_string_eq to_string_eq named_def val_of_val)
qed

lemma of_string_unknown: "n \<notin> set table \<Longrightarrow> of_string (Some n) = absent"
  by (simp add: of_string_eq table_search_None [THEN iffD2])

lemma of_string_NULL: "of_string None = absent"
  by (simp add: of_string_eq)

lemma to_string_unnamed: "\<not> named e \<Longrightarrow> to_string e = table ! fallback"
  by (auto simp: to_string_eq named_def)

text \<open>The two round trips, on every value and on every string.\<close>

lemma read_back: "of_string (Some (to_string e)) = (if named e then e else of_val (int fallback))"
proof (cases "named e")
  case False
  with fallback_in_table table_search_nth [OF table_distinct fallback_in_table, of 0] show ?thesis
    by (simp add: to_string_unnamed of_string_eq)
qed (simp add: of_string_to_string)

lemma print_back: "to_string (of_string (Some n)) = (if n \<in> set table then n else to_string absent)"
  using of_string_known of_string_unknown by simp

end

end
