(* ===== verification/Fanspeed.thy ===== *)
theory Fanspeed
  imports Enum_Table
begin

text \<open>
  \<open>fanspeed.h\<close> and \<open>fanspeed.c\<close>: the fan speed levels and their names.
\<close>

section \<open>The enum\<close>

text \<open>
  \<open>enum fanspeed\<close>. An object of the enum can hold any \<open>int\<close>, so two constructors stand for the
  values that are not enumerators: \<open>FANSPEED_BELOW n\<close> is \<open>-2 - n\<close>, \<open>FANSPEED_ABOVE n\<close> is \<open>5 + n\<close>.
\<close>

datatype fanspeed =
    FAND_SPEED_NONE | FAND_SPEED_SLOW | FAND_SPEED_NORMAL
  | FAND_SPEED_MEDIUM | FAND_SPEED_FAST | FAND_SPEED_MAX
  | FANSPEED_BELOW nat | FANSPEED_ABOVE nat

primrec fanspeed_val :: "fanspeed \<Rightarrow> int" where
  "fanspeed_val FAND_SPEED_NONE = -1"
| "fanspeed_val FAND_SPEED_SLOW = 0"
| "fanspeed_val FAND_SPEED_NORMAL = 1"
| "fanspeed_val FAND_SPEED_MEDIUM = 2"
| "fanspeed_val FAND_SPEED_FAST = 3"
| "fanspeed_val FAND_SPEED_MAX = 4"
| "fanspeed_val (FANSPEED_BELOW n) = - 2 - int n"
| "fanspeed_val (FANSPEED_ABOVE n) = 5 + int n"

text \<open>The conversion of an integer to the enum (\<open>return(i)\<close> in a function of that type).\<close>

definition fanspeed_of :: "int \<Rightarrow> fanspeed" where
  "fanspeed_of i =
     (if i < -1 then FANSPEED_BELOW (nat (- 2 - i))
      else if i = -1 then FAND_SPEED_NONE
      else if i = 0 then FAND_SPEED_SLOW
      else if i = 1 then FAND_SPEED_NORMAL
      else if i = 2 then FAND_SPEED_MEDIUM
      else if i = 3 then FAND_SPEED_FAST
      else if i = 4 then FAND_SPEED_MAX
      else FANSPEED_ABOVE (nat (i - 5)))"

lemma fanspeed_of_val: "fanspeed_of (fanspeed_val s) = s"
  by (cases s) (auto simp: fanspeed_of_def)

lemma fanspeed_val_of: "fanspeed_val (fanspeed_of i) = i"
  by (auto simp: fanspeed_of_def)

text \<open>C compares enum values as integers.\<close>

instantiation fanspeed :: linorder
begin

definition less_eq_fanspeed :: "fanspeed \<Rightarrow> fanspeed \<Rightarrow> bool" where
  "less_eq_fanspeed a b \<longleftrightarrow> fanspeed_val a \<le> fanspeed_val b"

definition less_fanspeed :: "fanspeed \<Rightarrow> fanspeed \<Rightarrow> bool" where
  "less_fanspeed a b \<longleftrightarrow> fanspeed_val a < fanspeed_val b"

instance
  by standard (auto simp: less_eq_fanspeed_def less_fanspeed_def dest: arg_cong [where f = fanspeed_of]
      simp: fanspeed_of_val)

end

section \<open>Names\<close>

definition fanspeed_string :: "string list" where
  "fanspeed_string = [''slow'', ''normal'', ''medium'', ''fast'', ''max'']"

definition fan_speed_string_to_enum :: "string option \<Rightarrow> fanspeed" where
  "fan_speed_string_to_enum name =
     (case name of
        None \<Rightarrow> FAND_SPEED_NONE
      | Some n \<Rightarrow>
          (case table_search fanspeed_string n 0 of
             Some i \<Rightarrow> fanspeed_of (int i)
           | None \<Rightarrow> FAND_SPEED_NONE))"

definition fan_speed_enum_to_string :: "fanspeed \<Rightarrow> string" where
  "fan_speed_enum_to_string s =
     (if fanspeed_val s \<ge> 0 \<and> nat (fanspeed_val s) < length fanspeed_string
      then fanspeed_string ! nat (fanspeed_val s)
      else fanspeed_string ! nat (fanspeed_val FAND_SPEED_NORMAL))"

interpretation speed_table: enum_table
  fanspeed_string fanspeed_val fanspeed_of FAND_SPEED_NONE 1
  fan_speed_string_to_enum fan_speed_enum_to_string
  by unfold_locales
    (auto simp: fanspeed_string_def fanspeed_val_of fanspeed_of_val fan_speed_string_to_enum_def
      fan_speed_enum_to_string_def split: option.splits)

text \<open>The enumerators that have a name are those from \<open>slow\<close> to \<open>max\<close>.\<close>

lemma speed_named_iff:
  "speed_table.named s \<longleftrightarrow> FAND_SPEED_SLOW \<le> s \<and> s \<le> FAND_SPEED_MAX"
  unfolding speed_table.named_def by (auto simp: fanspeed_string_def less_eq_fanspeed_def)

lemma speed_of_string_cases:
  "fan_speed_string_to_enum n = FAND_SPEED_NONE \<or>
   FAND_SPEED_SLOW \<le> fan_speed_string_to_enum n \<and> fan_speed_string_to_enum n \<le> FAND_SPEED_MAX"
proof (cases n)
  case (Some s)
  then show ?thesis
    using speed_table.of_string_known [of s] speed_table.of_string_unknown [of s]
    by (auto simp: speed_named_iff)
qed (simp add: speed_table.of_string_NULL)

lemma speed_of_string_not_below [simp]:
  "fan_speed_string_to_enum n \<noteq> FANSPEED_BELOW k" "fan_speed_string_to_enum n \<noteq> FANSPEED_ABOVE k"
  using speed_of_string_cases [of n] by (auto simp: less_eq_fanspeed_def)

end
