(* ===== verification/Fanstatus.thy ===== *)
theory Fanstatus
  imports Enum_Table
begin

text \<open>
  \<open>fanstatus.h\<close> and \<open>fanstatus.c\<close>: the status of a fan and its names.
\<close>

text \<open>
  \<open>enum fanstatus\<close>, an unsigned type as well: \<open>FANSTATUS_RAW n\<close> is the value \<open>3 + n\<close>. A fan's
  \<open>status\<close> field holds such a value when the memory \<open>malloc\<close> returned was never written.
\<close>

datatype fanstatus =
    FAND_STATUS_UNINITIALIZED | FAND_STATUS_OK | FAND_STATUS_FAULT | FANSTATUS_RAW nat

primrec fanstatus_val :: "fanstatus \<Rightarrow> int" where
  "fanstatus_val FAND_STATUS_UNINITIALIZED = 0"
| "fanstatus_val FAND_STATUS_OK = 1"
| "fanstatus_val FAND_STATUS_FAULT = 2"
| "fanstatus_val (FANSTATUS_RAW n) = 3 + int n"

text \<open>The conversion of a \<open>size_t\<close>, hence non-negative, value to the enum.\<close>

definition fanstatus_of :: "int \<Rightarrow> fanstatus" where
  "fanstatus_of i =
     (if i = 0 then FAND_STATUS_UNINITIALIZED
      else if i = 1 then FAND_STATUS_OK
      else if i = 2 then FAND_STATUS_FAULT
      else FANSTATUS_RAW (nat (i - 3)))"

definition fanstatus_string :: "string list" where
  "fanstatus_string = [''uninitialized'', ''ok'', ''fault'']"

definition fan_status_string_to_enum :: "string option \<Rightarrow> fanstatus" where
  "fan_status_string_to_enum name =
     (case name of
        None \<Rightarrow> FAND_STATUS_UNINITIALIZED
      | Some n \<Rightarrow>
          (case table_search fanstatus_string n 0 of
             Some i \<Rightarrow> fanstatus_of (int i)
           | None \<Rightarrow> FAND_STATUS_UNINITIALIZED))"

definition fan_status_enum_to_string :: "fanstatus \<Rightarrow> string" where
  "fan_status_enum_to_string s =
     (if nat (fanstatus_val s) < length fanstatus_string
      then fanstatus_string ! nat (fanstatus_val s)
      else fanstatus_string ! nat (fanstatus_val FAND_STATUS_UNINITIALIZED))"

lemma fanstatus_of_val: "fanstatus_of (fanstatus_val s) = s"
  by (cases s) (auto simp: fanstatus_of_def)

lemma fanstatus_val_of: "0 \<le> i \<Longrightarrow> fanstatus_val (fanstatus_of i) = i"
  by (auto simp: fanstatus_of_def)

lemma fanstatus_val_nonneg [simp]: "0 \<le> fanstatus_val s"
  by (cases s) auto

text \<open>C compares enum values as integers.\<close>

instantiation fanstatus :: linorder
begin

definition less_eq_fanstatus :: "fanstatus \<Rightarrow> fanstatus \<Rightarrow> bool" where
  "less_eq_fanstatus a b \<longleftrightarrow> fanstatus_val a \<le> fanstatus_val b"

definition less_fanstatus :: "fanstatus \<Rightarrow> fanstatus \<Rightarrow> bool" where
  "less_fanstatus a b \<longleftrightarrow> fanstatus_val a < fanstatus_val b"

instance
  by standard (auto simp: less_eq_fanstatus_def less_fanstatus_def
      dest: arg_cong [where f = fanstatus_of] simp: fanstatus_of_val)

end

lemma uninitialized_least [simp]: "FAND_STATUS_UNINITIALIZED \<le> s"
  by (simp add: less_eq_fanstatus_def)

interpretation status_table: enum_table
  fanstatus_string fanstatus_val fanstatus_of FAND_STATUS_UNINITIALIZED 0
  fan_status_string_to_enum fan_status_enum_to_string
  by unfold_locales
    (auto simp: fanstatus_string_def fanstatus_val_of fanstatus_of_val
      fan_status_string_to_enum_def fan_status_enum_to_string_def split: option.splits)

lemma status_named_iff:
  "status_table.named s \<longleftrightarrow> s \<in> {FAND_STATUS_UNINITIALIZED, FAND_STATUS_OK, FAND_STATUS_FAULT}"
  unfolding status_table.named_def by (cases s) (simp_all add: fanstatus_string_def)

end
