(* ===== verification/Platform.thy ===== *)
theory Platform
  imports Fanspeed Fanstatus
begin

text \<open>
  What the daemon calls but the repository does not hold: the string hash tables, the hardware
  description library with its I2C accessors, the OVSDB client library and the allocator. Each is a
  field of the record \<open>platform\<close>, an argument of every definition that uses it; the records of this
  theory list the fields of the library's structures that the sources read. The predicates at the
  end name the documented behaviour that some theorems rely on.
\<close>

section \<open>Hardware description data\<close>

type_synonym addr = nat

text \<open>A non-NULL pointer to an \<open>i2c_bit_op\<close>; the sources only pass it on.\<close>

type_synonym i2c_op = nat

text \<open>\<open>yf_addr\<close> is the address of the structure: the sources compare pointers to \<open>YamlFan\<close>.\<close>

record YamlFan =
  yf_addr :: addr
  yf_name :: string
  yf_fan_speed_control :: "i2c_op option"
  yf_fan_speed :: "i2c_op option"
  yf_fan_speed_msb :: "i2c_op option"
  yf_fan_fault :: "i2c_op option"

text \<open>\<open>fru_fans\<close> is the NULL-terminated array \<open>fans\<close>.\<close>

record YamlFanFru =
  fru_number :: int
  fru_fans :: "YamlFan list"
  fru_fan_leds :: "i2c_op option"
  fru_fan_direction_detect :: "i2c_op option"
  fru_fan_present :: "i2c_op option"
  fru_fan_speed_control :: "i2c_op option"

datatype fan_speed_control_type = SINGLE | PER_FRU | PER_FAN | CONTROL_TYPE_OTHER int

record fan_speed_settings =
  set_slow :: int
  set_normal :: int
  set_medium :: int
  set_fast :: int
  set_max :: int

record fan_led_values =
  led_off :: int
  led_good :: int
  led_fault :: int

record YamlFanInfo =
  number_fan_frus :: nat
  fan_speed_control_type :: fan_speed_control_type
  info_fan_speed_control :: "i2c_op option"
  fan_speed_settings :: fan_speed_settings
  fan_led_values :: fan_led_values
  info_fan_led :: "i2c_op option"
  direction_f2b :: int
  fan_speed_multiplier :: s32
  fan_speed_numerator :: s32

section \<open>Database rows\<close>

text \<open>
  The columns of the OVSDB tables that the sources use, as the client library's replica holds them.
  A row is identified by its uuid. \<open>of_rpm\<close> is the optional column \<open>rpm\<close>.
\<close>

record ovsrec_fan =
  of_uuid :: nat
  of_name :: string
  of_speed :: string
  of_direction :: string
  of_status :: string
  of_rpm :: "int option"

record ovsrec_temp_sensor =
  ts_fan_state :: "string option"

record ovsrec_subsystem =
  os_uuid :: nat
  os_name :: string
  os_hw_desc_dir :: "string option"
  os_other_config :: "string \<Rightarrow> string option"
  os_temp_sensors :: "ovsrec_temp_sensor list"
  os_fans :: "nat list"

record ovsrec_daemon =
  od_name :: string
  od_cur_hw :: int

record ovsdb_idl =
  idl_fans :: "ovsrec_fan list"
  idl_subsystems :: "ovsrec_subsystem list"
  idl_daemons :: "ovsrec_daemon list"
  idl_get_seqno :: nat
  idl_has_lock :: bool
  idl_is_lock_contended :: bool

section \<open>The platform\<close>

text \<open>
  \<open>'s\<close> is the type of hash tables (\<open>struct shash\<close>, a collection of (name, pointer) nodes), \<open>'y\<close> the
  state behind the yaml handle and \<open>'h\<close> the state of the hardware.
  \<^item> \<open>shash_nodes\<close> is the order in which \<open>SHASH_FOR_EACH\<close> visits the nodes.
  \<^item> \<open>i2c_reg_read\<close> takes the old content of its output variable and gives the new one, since a
    failing read may leave it alone.
  \<^item> \<open>malloc_fan\<close> is the content of a fresh, unwritten \<open>struct locl_fan\<close> (its \<open>speed\<close>, \<open>direction\<close>,
    \<open>rpm\<close> and \<open>status\<close>), \<open>stack_junk\<close> that of an uninitialised local \<open>uint32_t\<close>.
  \<^item> \<open>fan_insert\<close> is \<open>ovsrec_fan_insert\<close>: the table with a new row, and that row's uuid.
  \<^item> \<open>txn_commit_block\<close> maps the replica before a transaction and the replica with the transaction's
    writes to the replica after \<open>ovsdb_idl_txn_commit_block\<close>.
\<close>

record ('s, 'y, 'h) platform =
  shash_init :: 's
  shash_add :: "'s \<Rightarrow> string \<Rightarrow> addr \<Rightarrow> 's"
  shash_find :: "'s \<Rightarrow> string \<Rightarrow> (string \<times> addr) option"
  shash_delete :: "'s \<Rightarrow> string \<times> addr \<Rightarrow> 's"
  shash_nodes :: "'s \<Rightarrow> (string \<times> addr) list"
  yaml_add_subsystem :: "'y \<Rightarrow> string \<Rightarrow> string \<Rightarrow> 'y \<times> int"
  yaml_parse_devices :: "'y \<Rightarrow> string \<Rightarrow> 'y \<times> int"
  yaml_parse_fans :: "'y \<Rightarrow> string \<Rightarrow> 'y \<times> int"
  yaml_get_fan_info :: "'y \<Rightarrow> string \<Rightarrow> YamlFanInfo option"
  yaml_get_fan_fru_count :: "'y \<Rightarrow> string \<Rightarrow> u32"
  yaml_get_fan_fru :: "'y \<Rightarrow> string \<Rightarrow> nat \<Rightarrow> YamlFanFru option"
  i2c_reg_read :: "'y \<Rightarrow> 'h \<Rightarrow> string \<Rightarrow> i2c_op option \<Rightarrow> u32 \<Rightarrow> 'h \<times> int \<times> u32"
  i2c_reg_write :: "'y \<Rightarrow> 'h \<Rightarrow> string \<Rightarrow> i2c_op option \<Rightarrow> u8 \<Rightarrow> 'h \<times> int"
  malloc_fan :: "addr \<Rightarrow> fanspeed \<times> string \<times> s32 \<times> fanstatus"
  stack_junk :: u32
  fan_insert :: "ovsrec_fan list \<Rightarrow> ovsrec_fan list \<times> nat"
  txn_commit_block :: "ovsdb_idl \<Rightarrow> ovsdb_idl \<Rightarrow> ovsdb_idl"

section \<open>Documented behaviour\<close>

text \<open>
  \<open>shash\<close>: a collection of nodes that may hold a name more than once; a search gives some node of
  that name, or NULL if there is none; deleting a node of the table removes that node only.
\<close>

definition shash_ok :: "('s, 'y, 'h) platform \<Rightarrow> bool" where
  "shash_ok P \<longleftrightarrow>
     shash_nodes P (shash_init P) = [] \<and>
     (\<forall>s n d. mset (shash_nodes P (shash_add P s n d)) = add_mset (n, d) (mset (shash_nodes P s))) \<and>
     (\<forall>s n. shash_find P s n = None \<longleftrightarrow> n \<notin> fst ` set (shash_nodes P s)) \<and>
     (\<forall>s n nd. shash_find P s n = Some nd \<longrightarrow> nd \<in> set (shash_nodes P s) \<and> fst nd = n) \<and>
     (\<forall>s nd. nd \<in> set (shash_nodes P s) \<longrightarrow>
        mset (shash_nodes P (shash_delete P s nd)) = mset (shash_nodes P s) - {#nd#})"

text \<open>All fans of a subsystem, FRU by FRU, and what the daemon can see of a subsystem's description.\<close>

definition yaml_fans :: "('s, 'y, 'h) platform \<Rightarrow> 'y \<Rightarrow> string \<Rightarrow> YamlFan list" where
  "yaml_fans P y n = concat (map (\<lambda>i. case yaml_get_fan_fru P y n i of
       None \<Rightarrow> [] | Some fru \<Rightarrow> fru_fans fru) [0 ..< unat (yaml_get_fan_fru_count P y n)])"

definition yaml_view :: "('s, 'y, 'h) platform \<Rightarrow> 'y \<Rightarrow> string \<Rightarrow>
    YamlFanInfo option \<times> u32 \<times> (nat \<Rightarrow> YamlFanFru option)" where
  "yaml_view P y n =
     (yaml_get_fan_info P y n, yaml_get_fan_fru_count P y n, yaml_get_fan_fru P y n)"

text \<open>
  The hardware description library: the FRUs below the count exist, the count is an \<open>int\<close> and agrees
  with the \<open>number_fan_frus\<close> of the fan info, and loading one subsystem leaves the others alone.
\<close>

definition yaml_ok :: "('s, 'y, 'h) platform \<Rightarrow> bool" where
  "yaml_ok P \<longleftrightarrow>
     (\<forall>y n. unat (yaml_get_fan_fru_count P y n) < 2 ^ 31) \<and>
     (\<forall>y n i. i < unat (yaml_get_fan_fru_count P y n) \<longrightarrow> yaml_get_fan_fru P y n i \<noteq> None) \<and>
     (\<forall>y n info. yaml_get_fan_info P y n = Some info \<longrightarrow>
        number_fan_frus info = unat (yaml_get_fan_fru_count P y n)) \<and>
     (\<forall>y n d m. m \<noteq> n \<longrightarrow>
        yaml_view P (fst (yaml_add_subsystem P y n d)) m = yaml_view P y m \<and>
        yaml_view P (fst (yaml_parse_devices P y n)) m = yaml_view P y m \<and>
        yaml_view P (fst (yaml_parse_fans P y n)) m = yaml_view P y m)"

text \<open>The name the daemon gives a fan, \<open>asprintf("%s-%s")\<close>.\<close>

definition full_name :: "string \<Rightarrow> string \<Rightarrow> string" where
  "full_name subsys fan = subsys @ ''-'' @ fan"

text \<open>
  A hardware description without name clashes: two different fans never get the same full name. The
  library does not check this, so it is a condition on the description files.
\<close>

definition fan_names_ok :: "('s, 'y, 'h) platform \<Rightarrow> bool" where
  "fan_names_ok P \<longleftrightarrow>
     (\<forall>y n. distinct (map yf_name (yaml_fans P y n))) \<and>
     (\<forall>y n n' g g'. n \<noteq> n' \<and> g \<in> set (yaml_fans P y n) \<and> g' \<in> set (yaml_fans P y n') \<longrightarrow>
        full_name n (yf_name g) \<noteq> full_name n' (yf_name g'))"

text \<open>
  The database client: an insert adds one row with a fresh uuid, whose optional columns are empty; a
  commit makes all writes of its transaction or none; a commit that succeeds. The last two are the cases
  in which no change of another client arrives while the commit blocks: \<open>txn_commit_block\<close> itself may leave
  any replica.
\<close>

definition fan_insert_ok :: "('s, 'y, 'h) platform \<Rightarrow> bool" where
  "fan_insert_ok P \<longleftrightarrow> (\<forall>rows. let (rows', u) = fan_insert P rows in
     u \<notin> of_uuid ` set rows \<and> (\<exists>r. of_uuid r = u \<and> of_rpm r = None \<and> mset rows' = add_mset r (mset rows)))"

definition commit_atomic :: "('s, 'y, 'h) platform \<Rightarrow> bool" where
  "commit_atomic P \<longleftrightarrow> (\<forall>before staged. txn_commit_block P before staged \<in> {before, staged})"

definition commits :: "('s, 'y, 'h) platform \<Rightarrow> bool" where
  "commits P \<longleftrightarrow> (\<forall>before staged. txn_commit_block P before staged = staged)"

section \<open>Consequences\<close>

lemma nodes_init [simp]: "shash_ok P \<Longrightarrow> shash_nodes P (shash_init P) = []"
  by (simp add: shash_ok_def)

lemma nodes_add: "shash_ok P \<Longrightarrow>
    mset (shash_nodes P (shash_add P s n d)) = add_mset (n, d) (mset (shash_nodes P s))"
  by (simp add: shash_ok_def)

lemma set_nodes_add [simp]: "shash_ok P \<Longrightarrow>
    set (shash_nodes P (shash_add P s n d)) = insert (n, d) (set (shash_nodes P s))"
  by (metis nodes_add set_mset_add_mset_insert set_mset_mset)

lemma find_None: "shash_ok P \<Longrightarrow> shash_find P s n = None \<longleftrightarrow> n \<notin> fst ` set (shash_nodes P s)"
  unfolding shash_ok_def by blast

lemma find_Some: "shash_ok P \<Longrightarrow> shash_find P s n = Some nd \<Longrightarrow>
    nd \<in> set (shash_nodes P s) \<and> fst nd = n"
  unfolding shash_ok_def by blast

lemma nodes_delete: "shash_ok P \<Longrightarrow> nd \<in> set (shash_nodes P s) \<Longrightarrow>
    mset (shash_nodes P (shash_delete P s nd)) = mset (shash_nodes P s) - {#nd#}"
  unfolding shash_ok_def by blast

lemma distinct_nodes_add:
  assumes "shash_ok P"
  shows "distinct (map f (shash_nodes P (shash_add P s n d))) \<longleftrightarrow>
    f (n, d) \<notin> f ` set (shash_nodes P s) \<and> distinct (map f (shash_nodes P s))"
proof -
  have "mset (map f (shash_nodes P (shash_add P s n d))) = mset (map f ((n, d) # shash_nodes P s))"
    using nodes_add [OF assms] by simp
  then have "distinct (map f (shash_nodes P (shash_add P s n d))) \<longleftrightarrow>
      distinct (map f ((n, d) # shash_nodes P s))"
    by (rule mset_eq_imp_distinct_iff)
  then show ?thesis by simp
qed

lemma mset_remove1_nodes:
  "shash_ok P \<Longrightarrow> nd \<in> set (shash_nodes P s) \<Longrightarrow>
    mset (shash_nodes P (shash_delete P s nd)) = mset (remove1 nd (shash_nodes P s))"
  by (simp add: nodes_delete)

lemma distinct_nodes_delete:
  assumes "shash_ok P" "nd \<in> set (shash_nodes P s)" "distinct (map f (shash_nodes P s))"
  shows "distinct (map f (shash_nodes P (shash_delete P s nd)))"
proof -
  have "mset (map f (shash_nodes P (shash_delete P s nd))) = mset (map f (remove1 nd (shash_nodes P s)))"
    using mset_remove1_nodes [OF assms(1,2)] by simp
  moreover have "distinct (map f (remove1 nd (shash_nodes P s)))"
    using assms(3) by (auto simp: distinct_map intro: inj_on_subset)
  ultimately show ?thesis by (metis mset_eq_imp_distinct_iff)
qed

lemma set_nodes_delete:
  assumes "shash_ok P" "nd \<in> set (shash_nodes P s)" "distinct (map f (shash_nodes P s))"
  shows "set (shash_nodes P (shash_delete P s nd)) = set (shash_nodes P s) - {nd}"
proof -
  have "set (shash_nodes P (shash_delete P s nd)) = set (remove1 nd (shash_nodes P s))"
    using mset_remove1_nodes [OF assms(1,2)] by (rule mset_eq_setD)
  then show ?thesis using assms(3) by (simp add: distinct_map)
qed

text \<open>A table whose names are distinct: the search is a function of the set of nodes.\<close>

lemma find_unique:
  assumes "shash_ok P" "distinct (map fst (shash_nodes P s))" "(n, d) \<in> set (shash_nodes P s)"
  shows "shash_find P s n = Some (n, d)"
proof (cases "shash_find P s n")
  case None
  with assms show ?thesis by (force simp: find_None)
next
  case (Some nd)
  from find_Some [OF assms(1) this] assms(2,3) show ?thesis
    by (metis Some fst_conv inj_on_eq_iff distinct_map)
qed

lemma yaml_fru_exists: "yaml_ok P \<Longrightarrow> i < unat (yaml_get_fan_fru_count P y n) \<Longrightarrow>
    \<exists>fru. yaml_get_fan_fru P y n i = Some fru"
  unfolding yaml_ok_def by blast

lemma yaml_info_count: "yaml_ok P \<Longrightarrow> yaml_get_fan_info P y n = Some info \<Longrightarrow>
    number_fan_frus info = unat (yaml_get_fan_fru_count P y n)"
  unfolding yaml_ok_def by blast

lemma yaml_count_signed:
  assumes "yaml_ok P"
  shows "nat (sint (yaml_get_fan_fru_count P y n)) = unat (yaml_get_fan_fru_count P y n)"
proof -
  have "unat (yaml_get_fan_fru_count P y n) < 2 ^ 31" using assms unfolding yaml_ok_def by blast
  then show ?thesis by (simp only: sint_eq_int_unat nat_int)
qed

lemma yaml_fans_view: "yaml_view P y n = yaml_view P y' n \<Longrightarrow> yaml_fans P y n = yaml_fans P y' n"
  by (simp add: yaml_view_def yaml_fans_def)

end
