(* ===== verification/Fand_State.thy ===== *)
theory Fand_State
  imports Platform
begin

text \<open>
  The structures of \<open>fand-locl.h\<close>, the globals of \<open>fand.c\<close>, and the accesses every operation makes:
  through a pointer, to the I2C bus, to the event log. The last section is the frame that the
  operations of \<open>physfan.c\<close> keep: the tables, the blocks that are allocated, and the links.
\<close>

section \<open>Structures\<close>

text \<open>
  \<open>struct locl_subsystem\<close> and \<open>struct locl_fan\<close>. Both live in memory and are reached through pointers
  of type \<open>addr\<close>: a fan is shared between its subsystem's table and the table of all fans.
\<close>

record 's locl_subsystem =
  ls_name :: string
  marked :: bool
  valid :: bool
  parent_subsystem :: "addr option"
  fan_speed :: fanspeed            \<comment> \<open>from tempd results\<close>
  fan_speed_override :: fanspeed   \<comment> \<open>as configured by user\<close>
  speed :: fanspeed                \<comment> \<open>result of \<open>fan_speed\<close>, \<open>fan_speed_override\<close>\<close>
  multiplier :: s32
  numerator :: s32
  subsystem_fans :: 's

record locl_fan =
  lf_name :: string
  subsystem :: addr
  yaml_fan :: YamlFan
  lf_speed :: fanspeed
  direction :: string
  rpm :: s32
  status :: fanstatus

text \<open>What the daemon does to the outside, in order: bus accesses, logged events, commits, calls of
  \<open>daemonize_complete\<close>.\<close>

datatype io_event =
    I2cRead string "i2c_op option"
  | I2cWrite string "i2c_op option" u8
  | FanSpeedEvent string string u8   \<comment> \<open>\<open>log_event("FAN_SPEED", ...)\<close>\<close>
  | FanCountEvent string nat         \<comment> \<open>\<open>log_event("FAN_COUNT", ...)\<close>\<close>
  | CommitEvent
  | DaemonizeComplete                \<comment> \<open>the parent process is released\<close>

text \<open>
  The daemon's globals, with its heap: \<open>subsys_mem\<close> and \<open>fan_mem\<close> map the address of a live block to
  its content, \<open>next_addr\<close> is the next address \<open>malloc\<close> returns. \<open>free\<close> makes an address undefined
  for good, so a later access through an old pointer is seen.
\<close>

record ('s, 'y, 'h) fand =
  subsystem_data :: 's
  fan_data :: 's
  subsys_mem :: "addr \<Rightarrow> 's locl_subsystem option"
  fan_mem :: "addr \<Rightarrow> locl_fan option"
  next_addr :: addr
  yaml_handle :: 'y
  hw :: 'h
  idl :: ovsdb_idl
  idl_seqno :: nat
  cur_hw_set :: bool
  io :: "io_event list"

section \<open>Accesses\<close>

definition get_subsys :: "addr \<Rightarrow> ('s, 'y, 'h) fand \<Rightarrow> fault + 's locl_subsystem" where
  "get_subsys a st = deref UseAfterFree (subsys_mem st a)"

definition get_fan :: "addr \<Rightarrow> ('s, 'y, 'h) fand \<Rightarrow> fault + locl_fan" where
  "get_fan p st = deref UseAfterFree (fan_mem st p)"

definition put_subsys :: "addr \<Rightarrow> 's locl_subsystem \<Rightarrow> ('s, 'y, 'h) fand \<Rightarrow> ('s, 'y, 'h) fand" where
  "put_subsys a ss st = st\<lparr>subsys_mem := (subsys_mem st)(a \<mapsto> ss)\<rparr>"

definition put_fan :: "addr \<Rightarrow> locl_fan \<Rightarrow> ('s, 'y, 'h) fand \<Rightarrow> ('s, 'y, 'h) fand" where
  "put_fan p f st = st\<lparr>fan_mem := (fan_mem st)(p \<mapsto> f)\<rparr>"

definition log_io :: "io_event \<Rightarrow> ('s, 'y, 'h) fand \<Rightarrow> ('s, 'y, 'h) fand" where
  "log_io e st = st\<lparr>io := io st @ [e]\<rparr>"

definition bus_write :: "('s, 'y, 'h) platform \<Rightarrow> string \<Rightarrow> i2c_op option \<Rightarrow> u8 \<Rightarrow>
    ('s, 'y, 'h) fand \<Rightarrow> int \<times> ('s, 'y, 'h) fand" where
  "bus_write P name op v st =
     (let (h', rc) = i2c_reg_write P (yaml_handle st) (hw st) name op v
      in (rc, st\<lparr>hw := h', io := io st @ [I2cWrite name op v]\<rparr>))"

definition bus_read :: "('s, 'y, 'h) platform \<Rightarrow> string \<Rightarrow> i2c_op option \<Rightarrow> u32 \<Rightarrow>
    ('s, 'y, 'h) fand \<Rightarrow> int \<times> u32 \<times> ('s, 'y, 'h) fand" where
  "bus_read P name op old st =
     (let (h', rc, v) = i2c_reg_read P (yaml_handle st) (hw st) name op old
      in (rc, v, st\<lparr>hw := h', io := io st @ [I2cRead name op]\<rparr>))"

section \<open>The frame of the hardware operations\<close>

definition subsys_link :: "'s locl_subsystem \<Rightarrow> string \<times> 's" where
  "subsys_link ss = (ls_name ss, subsystem_fans ss)"

definition fan_link :: "locl_fan \<Rightarrow> string \<times> addr \<times> YamlFan" where
  "fan_link f = (lf_name f, subsystem f, yaml_fan f)"

text \<open>Two states with the same tables, the same live blocks and the same links between them.\<close>

definition same_links :: "('s, 'y, 'h) fand \<Rightarrow> ('s, 'y, 'h) fand \<Rightarrow> bool" where
  "same_links st st' \<longleftrightarrow>
     subsystem_data st' = subsystem_data st \<and> fan_data st' = fan_data st \<and>
     next_addr st' = next_addr st \<and> yaml_handle st' = yaml_handle st \<and>
     (\<forall>a. map_option subsys_link (subsys_mem st' a) = map_option subsys_link (subsys_mem st a)) \<and>
     (\<forall>p. map_option fan_link (fan_mem st' p) = map_option fan_link (fan_mem st p))"

lemma same_links_refl [simp, intro]: "same_links st st"
  by (simp add: same_links_def)

lemma same_links_trans [trans]: "same_links st st' \<Longrightarrow> same_links st' st'' \<Longrightarrow> same_links st st''"
  by (simp add: same_links_def)

lemma same_links_sym: "same_links st st' \<Longrightarrow> same_links st' st"
  by (simp add: same_links_def)

lemma same_links_put_subsys:
  "subsys_mem st a = Some ss \<Longrightarrow> subsys_link ss' = subsys_link ss \<Longrightarrow> same_links st (put_subsys a ss' st)"
  by (simp add: same_links_def put_subsys_def)

lemma same_links_put_fan:
  "fan_mem st p = Some f \<Longrightarrow> fan_link f' = fan_link f \<Longrightarrow> same_links st (put_fan p f' st)"
  by (simp add: same_links_def put_fan_def)

lemma same_links_subsys:
  assumes "same_links st st'" "subsys_mem st a = Some ss"
  shows "\<exists>ss'. subsys_mem st' a = Some ss' \<and> ls_name ss' = ls_name ss \<and>
    subsystem_fans ss' = subsystem_fans ss"
proof -
  have "map_option subsys_link (subsys_mem st' a) = Some (subsys_link ss)"
    using assms by (simp add: same_links_def)
  then show ?thesis by (auto simp: subsys_link_def)
qed

lemma same_links_fan:
  assumes "same_links st st'" "fan_mem st p = Some f"
  shows "\<exists>f'. fan_mem st' p = Some f' \<and> lf_name f' = lf_name f \<and>
    subsystem f' = subsystem f \<and> yaml_fan f' = yaml_fan f"
proof -
  have "map_option fan_link (fan_mem st' p) = Some (fan_link f)"
    using assms by (simp add: same_links_def)
  then show ?thesis by (auto simp: fan_link_def)
qed

text \<open>The bus and the log touch nothing but the hardware and the trace.\<close>

definition same_daemon :: "('s, 'y, 'h) fand \<Rightarrow> ('s, 'y, 'h) fand \<Rightarrow> bool" where
  "same_daemon st st' \<longleftrightarrow> (\<exists>h es. st' = st\<lparr>hw := h, io := io st @ es\<rparr>)"

lemma same_daemon_refl [simp, intro]: "same_daemon st st"
  unfolding same_daemon_def by (rule exI [of _ "hw st"], rule exI [of _ "[]"]) simp

lemma same_daemon_trans [trans]:
  "same_daemon st st' \<Longrightarrow> same_daemon st' st'' \<Longrightarrow> same_daemon st st''"
proof -
  assume "same_daemon st st'" "same_daemon st' st''"
  then obtain h es h' es' where "st' = st\<lparr>hw := h, io := io st @ es\<rparr>"
    and "st'' = st'\<lparr>hw := h', io := io st' @ es'\<rparr>"
    unfolding same_daemon_def by blast
  then have "st'' = st\<lparr>hw := h', io := io st @ (es @ es')\<rparr>" by simp
  then show ?thesis unfolding same_daemon_def by blast
qed

lemma same_daemon_links: "same_daemon st st' \<Longrightarrow> same_links st st'"
  by (auto simp: same_daemon_def same_links_def)

lemma same_daemon_fields:
  "same_daemon st st' \<Longrightarrow>
     subsystem_data st' = subsystem_data st \<and> fan_data st' = fan_data st \<and>
     subsys_mem st' = subsys_mem st \<and> fan_mem st' = fan_mem st \<and> next_addr st' = next_addr st \<and>
     yaml_handle st' = yaml_handle st \<and> idl st' = idl st \<and> idl_seqno st' = idl_seqno st \<and>
     cur_hw_set st' = cur_hw_set st"
  by (auto simp: same_daemon_def)

lemma same_daemon_write [simp, intro]: "same_daemon st (snd (bus_write P name op v st))"
  by (auto simp: same_daemon_def bus_write_def split: prod.splits)

lemma same_daemon_read [simp, intro]: "same_daemon st (snd (snd (bus_read P name op old st)))"
  by (auto simp: same_daemon_def bus_read_def split: prod.splits)

lemma same_daemon_readD: "bus_read P name op old st = (rc, v, st') \<Longrightarrow> same_daemon st st'"
  by (metis same_daemon_read snd_conv)

lemma same_daemon_log [simp, intro]: "same_daemon st (log_io e st)"
  unfolding same_daemon_def log_io_def by (rule exI [of _ "hw st"], rule exI [of _ "[e]"]) simp

lemma io_write [simp]: "io (snd (bus_write P name op v st)) = io st @ [I2cWrite name op v]"
  by (simp add: bus_write_def split: prod.splits)

lemma io_read [simp]: "io (snd (snd (bus_read P name op old st))) = io st @ [I2cRead name op]"
  by (simp add: bus_read_def split: prod.splits)

lemma io_log [simp]: "io (log_io e st) = io st @ [e]"
  by (simp add: log_io_def)

lemma put_subsys_simps [simp]:
  "subsystem_data (put_subsys a ss st) = subsystem_data st"
  "fan_data (put_subsys a ss st) = fan_data st"
  "subsys_mem (put_subsys a ss st) = (subsys_mem st)(a \<mapsto> ss)"
  "fan_mem (put_subsys a ss st) = fan_mem st"
  "next_addr (put_subsys a ss st) = next_addr st"
  "yaml_handle (put_subsys a ss st) = yaml_handle st"
  "idl (put_subsys a ss st) = idl st" "io (put_subsys a ss st) = io st"
  by (simp_all add: put_subsys_def)

lemma put_fan_simps [simp]:
  "subsystem_data (put_fan p f st) = subsystem_data st"
  "fan_data (put_fan p f st) = fan_data st"
  "subsys_mem (put_fan p f st) = subsys_mem st"
  "fan_mem (put_fan p f st) = (fan_mem st)(p \<mapsto> f)"
  "next_addr (put_fan p f st) = next_addr st"
  "yaml_handle (put_fan p f st) = yaml_handle st"
  "idl (put_fan p f st) = idl st" "io (put_fan p f st) = io st"
  by (simp_all add: put_fan_def)

lemma log_io_simps [simp]:
  "subsys_mem (log_io e st) = subsys_mem st" "fan_mem (log_io e st) = fan_mem st"
  "yaml_handle (log_io e st) = yaml_handle st" "hw (log_io e st) = hw st"
  "idl (log_io e st) = idl st"
  by (simp_all add: log_io_def)

section \<open>The contract of the hardware operations\<close>

text \<open>What only the code of \<open>fand.c\<close> itself changes: the replica of the database and its flags.\<close>

definition same_db :: "('s, 'y, 'h) fand \<Rightarrow> ('s, 'y, 'h) fand \<Rightarrow> bool" where
  "same_db st st' \<longleftrightarrow> idl st' = idl st \<and> idl_seqno st' = idl_seqno st \<and> cur_hw_set st' = cur_hw_set st"

definition hw_frame :: "('s, 'y, 'h) fand \<Rightarrow> ('s, 'y, 'h) fand \<Rightarrow> bool" where
  "hw_frame st st' \<longleftrightarrow> same_links st st' \<and> same_db st st'"

lemma hw_frame_refl [simp, intro]: "hw_frame st st"
  by (simp add: hw_frame_def same_db_def)

lemma hw_frame_trans [trans]: "hw_frame st st' \<Longrightarrow> hw_frame st' st'' \<Longrightarrow> hw_frame st st''"
  by (auto simp: hw_frame_def same_db_def intro: same_links_trans)

lemma hw_frame_links: "hw_frame st st' \<Longrightarrow> same_links st st'"
  by (simp add: hw_frame_def)

lemma same_daemon_frame: "same_daemon st st' \<Longrightarrow> hw_frame st st'"
  by (simp add: hw_frame_def same_db_def same_daemon_links same_daemon_fields)

lemma hw_frame_put_subsys:
  "subsys_mem st a = Some ss \<Longrightarrow> subsys_link ss' = subsys_link ss \<Longrightarrow> hw_frame st (put_subsys a ss' st)"
  unfolding hw_frame_def same_db_def by (simp add: same_links_put_subsys) (simp add: put_subsys_def)

lemma hw_frame_put_fan:
  "fan_mem st p = Some f \<Longrightarrow> fan_link f' = fan_link f \<Longrightarrow> hw_frame st (put_fan p f' st)"
  unfolding hw_frame_def same_db_def by (simp add: same_links_put_fan) (simp add: put_fan_def)

text \<open>
  An operation of \<open>physfan.h\<close> as \<open>fand.c\<close> sees it: called with a pointer that \<open>ok\<close> accepts, it ends
  with one of \<open>faults\<close> or has its \<open>effect\<close>, and an effect keeps the frame. What \<open>ok\<close> asks is a matter
  of the links, so it survives every other hardware operation.
\<close>

locale hw_op =
  fixes opn :: "addr \<Rightarrow> ('s, 'y, 'h) fand \<Rightarrow> fault + ('s, 'y, 'h) fand"
    and ok :: "addr \<Rightarrow> ('s, 'y, 'h) fand \<Rightarrow> bool"
    and faults :: "fault set"
    and effect :: "addr \<Rightarrow> ('s, 'y, 'h) fand \<Rightarrow> ('s, 'y, 'h) fand \<Rightarrow> bool"
  assumes ok_links: "same_links st st' \<Longrightarrow> ok x st \<Longrightarrow> ok x st'"
    and opn_post: "ok x st \<Longrightarrow> post faults (effect x st) (opn x st)"
    and effect_frame: "effect x st st' \<Longrightarrow> hw_frame st st'"
begin

text \<open>Called after anything else that keeps the frame.\<close>

lemma then_post:
  assumes "post faults Q r" "ok x st" "\<And>s. Q s \<Longrightarrow> hw_frame st s"
    and "\<And>s s'. Q s \<Longrightarrow> effect x s s' \<Longrightarrow> R s'"
  shows "post faults R (and_then r (opn x))"
  using assms(1)
proof (rule post_and_then)
  fix s assume Q: "Q s"
  from ok_links [OF hw_frame_links [OF assms(3) [OF Q]] assms(2)]
  show "post faults R (opn x s)" by (rule post_mono [OF opn_post]) (rule assms(4) [OF Q])
qed

end

end
