(* ===== verification/Physfan_Speed.thy ===== *)
theory Physfan_Speed
  imports Fand_State
begin

text \<open>
  The speed control of \<open>physfan.c\<close>: choosing a subsystem's speed level from the sensors and the
  configured override, and writing the level's register value to the one, per-FRU or per-fan speed
  controls.
\<close>

section \<open>The level\<close>

text \<open>Lines 127-137: the override, unless there is none or the sensors ask for \<open>max\<close>.\<close>

definition fand_choose_speed :: "'s locl_subsystem \<Rightarrow> fanspeed" where
  "fand_choose_speed ss =
     (let s = fan_speed_override ss;
          s = (if s = FAND_SPEED_NONE \<or> fan_speed ss = FAND_SPEED_MAX then fan_speed ss else s)
      in if s = FAND_SPEED_NONE then FAND_SPEED_NORMAL else s)"

text \<open>Lines 151-198: the label of the logged event and the byte for the control register.\<close>

definition fand_speed_setting :: "YamlFanInfo \<Rightarrow> fanspeed \<Rightarrow> string \<times> u8" where
  "fand_speed_setting info s =
     (let t = fan_speed_settings info in
      case s of
        FAND_SPEED_SLOW \<Rightarrow> (''SLOW'', word_of_int (set_slow t))
      | FAND_SPEED_MEDIUM \<Rightarrow> (''MEDIUM'', word_of_int (set_medium t))
      | FAND_SPEED_FAST \<Rightarrow> (''FAST'', word_of_int (set_fast t))
      | FAND_SPEED_MAX \<Rightarrow> (''MAX'', word_of_int (set_max t))
      | _ \<Rightarrow> (''NORMAL'', word_of_int (set_normal t)))"

section \<open>The controls\<close>

text \<open>The loop over the fans of a FRU with one control per fan.\<close>

definition fand_write_fan_speed :: "('s, 'y, 'h) platform \<Rightarrow> string \<Rightarrow> u8 \<Rightarrow> YamlFan \<Rightarrow>
    ('s, 'y, 'h) fand \<Rightarrow> fault + ('s, 'y, 'h) fand" where
  "fand_write_fan_speed P name v fan st =
     (case yf_fan_speed_control fan of
        None \<Rightarrow> Inr st
      | Some op \<Rightarrow> Inr (snd (bus_write P name (Some op) v st)))"

text \<open>
  The body of the loop over the FRUs. For a control type that is none of the three the C function
  returns at once; every other iteration would change nothing either.
\<close>

definition fand_write_fru_speed :: "('s, 'y, 'h) platform \<Rightarrow> YamlFanInfo \<Rightarrow> string \<Rightarrow> u8 \<Rightarrow> nat \<Rightarrow>
    ('s, 'y, 'h) fand \<Rightarrow> fault + ('s, 'y, 'h) fand" where
  "fand_write_fru_speed P info name v idx st =
     (let fru = yaml_get_fan_fru P (yaml_handle st) name idx in
      if fan_speed_control_type info = PER_FRU then
        and_then (deref NullDeref fru) (\<lambda>fru.
          case fru_fan_speed_control fru of
            None \<Rightarrow> Inr st
          | Some op \<Rightarrow> Inr (snd (bus_write P name (Some op) v st)))
      else if fan_speed_control_type info = PER_FAN then
        and_then (deref NullDeref fru) (\<lambda>fru.
          foreach (fand_write_fan_speed P name v) (fru_fans fru) st)
      else Inr st)"

definition fand_set_fanspeed :: "('s, 'y, 'h) platform \<Rightarrow> addr \<Rightarrow>
    ('s, 'y, 'h) fand \<Rightarrow> fault + ('s, 'y, 'h) fand" where
  "fand_set_fanspeed P a st =
     and_then (get_subsys a st) (\<lambda>ss.
       let s = fand_choose_speed ss;
           name = ls_name ss;
           st = put_subsys a (ss\<lparr>speed := s\<rparr>) st
       in case yaml_get_fan_info P (yaml_handle st) name of
            None \<Rightarrow> Inr st
          | Some info \<Rightarrow>
              (let (label, v) = fand_speed_setting info s;
                   st = log_io (FanSpeedEvent name label v) st
               in if fan_speed_control_type info = SINGLE then
                    (case info_fan_speed_control info of
                       None \<Rightarrow> Inr st
                     | Some op \<Rightarrow> Inr (snd (bus_write P name (Some op) v st)))
                  else
                    foreach (fand_write_fru_speed P info name v) [0 ..< number_fan_frus info] st))"

section \<open>What is written\<close>

text \<open>The bus writes of one call, in order, from the hardware description alone.\<close>

definition opt_write :: "string \<Rightarrow> u8 \<Rightarrow> i2c_op option \<Rightarrow> io_event list" where
  "opt_write name v c = (case c of None \<Rightarrow> [] | Some op \<Rightarrow> [I2cWrite name (Some op) v])"

definition speed_writes :: "('s, 'y, 'h) platform \<Rightarrow> 'y \<Rightarrow> YamlFanInfo \<Rightarrow> string \<Rightarrow> u8 \<Rightarrow> io_event list" where
  "speed_writes P y info name v =
     (case fan_speed_control_type info of
        SINGLE \<Rightarrow> opt_write name v (info_fan_speed_control info)
      | PER_FRU \<Rightarrow> concat (map (\<lambda>i. case yaml_get_fan_fru P y name i of
            None \<Rightarrow> [] | Some fru \<Rightarrow> opt_write name v (fru_fan_speed_control fru))
          [0 ..< number_fan_frus info])
      | PER_FAN \<Rightarrow> concat (map (\<lambda>i. case yaml_get_fan_fru P y name i of
            None \<Rightarrow> [] | Some fru \<Rightarrow>
              concat (map (\<lambda>f. opt_write name v (yf_fan_speed_control f)) (fru_fans fru)))
          [0 ..< number_fan_frus info])
      | CONTROL_TYPE_OTHER _ \<Rightarrow> [])"

text \<open>An operation on the bus: it appends \<open>es\<close> to the trace and touches the hardware only.\<close>

definition bus_op :: "('s, 'y, 'h) fand \<Rightarrow> io_event list \<Rightarrow> ('s, 'y, 'h) fand \<Rightarrow> bool" where
  "bus_op st es st' \<longleftrightarrow> same_daemon st st' \<and> io st' = io st @ es"

lemma bus_op_Nil: "bus_op st [] st"
  by (simp add: bus_op_def)

lemma bus_op_trans: "bus_op st es st' \<Longrightarrow> bus_op st' es' st'' \<Longrightarrow> bus_op st (es @ es') st''"
  unfolding bus_op_def by (auto intro: same_daemon_trans)

lemma bus_op_write: "bus_op st [I2cWrite name op v] (snd (bus_write P name op v st))"
  by (simp add: bus_op_def)

lemma bus_op_yaml: "bus_op st es st' \<Longrightarrow> yaml_handle st' = yaml_handle st"
  by (auto simp: bus_op_def dest: same_daemon_fields)

text \<open>A loop of bus operations appends what its iterations append.\<close>

lemma post_foreach_bus:
  assumes "\<And>x s. x \<in> set xs \<Longrightarrow> yaml_handle s = yaml_handle st \<Longrightarrow> post F (bus_op s (ev x)) (f x s)"
  shows "post F (bus_op st (concat (map ev xs))) (foreach f xs st)"
proof -
  have "post F (bus_op s (concat (map ev ys))) (foreach f ys s)"
    if "set ys \<subseteq> set xs" "yaml_handle s = yaml_handle st" for ys s
    using that
  proof (induction ys arbitrary: s)
    case Nil
    then show ?case by (simp add: bus_op_Nil)
  next
    case (Cons y ys)
    from Cons.prems have "post F (bus_op s (ev y)) (f y s)" by (intro assms) auto
    then have "post F (bus_op s (ev y @ concat (map ev ys))) (and_then (f y s) (foreach f ys))"
    proof (rule post_and_then)
      fix s' assume s': "bus_op s (ev y) s'"
      with Cons.prems have "post F (bus_op s' (concat (map ev ys))) (foreach f ys s')"
        by (intro Cons.IH) (auto simp: bus_op_yaml)
      then show "post F (bus_op s (ev y @ concat (map ev ys))) (foreach f ys s')"
        by (rule post_mono) (rule bus_op_trans [OF s'])
    qed
    then show ?case by simp
  qed
  then show ?thesis by simp
qed

lemma post_opt_write:
  "post F (bus_op st (opt_write name v c))
     (case c of None \<Rightarrow> Inr st | Some op \<Rightarrow> Inr (snd (bus_write P name (Some op) v st)))"
  by (cases c) (simp_all add: opt_write_def bus_op_Nil bus_op_write)

lemma post_fand_write_fan_speed:
  "post F (bus_op st (opt_write name v (yf_fan_speed_control fan))) (fand_write_fan_speed P name v fan st)"
  unfolding fand_write_fan_speed_def by (rule post_opt_write)

text \<open>The FRU that the hardware description names at an index must exist when it is needed.\<close>

definition frus_exist :: "('s, 'y, 'h) platform \<Rightarrow> 'y \<Rightarrow> YamlFanInfo \<Rightarrow> string \<Rightarrow> bool" where
  "frus_exist P y info name \<longleftrightarrow> (\<forall>i < number_fan_frus info. yaml_get_fan_fru P y name i \<noteq> None)"

lemma frus_exist_yaml_ok:
  "yaml_ok P \<Longrightarrow> yaml_get_fan_info P y name = Some info \<Longrightarrow> frus_exist P y info name"
  unfolding frus_exist_def using yaml_fru_exists yaml_info_count by fastforce

lemma post_speed_controls:
  assumes "NullDeref \<in> F \<or> frus_exist P (yaml_handle st) info name"
  shows "post F (bus_op st (speed_writes P (yaml_handle st) info name v))
     (if fan_speed_control_type info = SINGLE then
        (case info_fan_speed_control info of
           None \<Rightarrow> Inr st | Some op \<Rightarrow> Inr (snd (bus_write P name (Some op) v st)))
      else foreach (fand_write_fru_speed P info name v) [0 ..< number_fan_frus info] st)"
proof (cases "fan_speed_control_type info = SINGLE")
  case True
  then show ?thesis by (simp add: speed_writes_def post_opt_write)
next
  case False
  define ev where "ev i = (case yaml_get_fan_fru P (yaml_handle st) name i of None \<Rightarrow> [] | Some fru \<Rightarrow>
      if fan_speed_control_type info = PER_FRU then opt_write name v (fru_fan_speed_control fru)
      else if fan_speed_control_type info = PER_FAN
      then concat (map (\<lambda>f. opt_write name v (yf_fan_speed_control f)) (fru_fans fru)) else [])" for i
  have "post F (bus_op s (ev i)) (fand_write_fru_speed P info name v i s)"
    if "i \<in> set [0 ..< number_fan_frus info]" "yaml_handle s = yaml_handle st" for i s
  proof (cases "yaml_get_fan_fru P (yaml_handle st) name i")
    case None
    with assms that have "NullDeref \<in> F" by (auto simp: frus_exist_def)
    with None that show ?thesis by (simp add: fand_write_fru_speed_def ev_def bus_op_Nil)
  next
    case (Some fru)
    with that show ?thesis
      by (simp add: fand_write_fru_speed_def ev_def bus_op_Nil post_opt_write
          post_foreach_bus post_fand_write_fan_speed)
  qed
  then have "post F (bus_op st (concat (map ev [0 ..< number_fan_frus info])))
      (foreach (fand_write_fru_speed P info name v) [0 ..< number_fan_frus info] st)"
    by (rule post_foreach_bus)
  moreover have "concat (map ev [0 ..< number_fan_frus info]) = speed_writes P (yaml_handle st) info name v"
    using False by (cases "fan_speed_control_type info")
      (auto simp: ev_def speed_writes_def split: option.splits intro!: arg_cong [where f = concat])
  ultimately show ?thesis using False by simp
qed

text \<open>The trace of a whole call: the logged event, then the writes.\<close>

definition speed_trace :: "('s, 'y, 'h) platform \<Rightarrow> 'y \<Rightarrow> 's locl_subsystem \<Rightarrow> io_event list" where
  "speed_trace P y ss =
     (case yaml_get_fan_info P y (ls_name ss) of
        None \<Rightarrow> []
      | Some info \<Rightarrow>
          (let (label, v) = fand_speed_setting info (fand_choose_speed ss)
           in FanSpeedEvent (ls_name ss) label v # speed_writes P y info (ls_name ss) v))"

lemma post_fand_set_fanspeed:
  assumes ss: "subsys_mem st a = Some ss"
    and F: "NullDeref \<in> F \<or>
      (\<forall>info. yaml_get_fan_info P (yaml_handle st) (ls_name ss) = Some info \<longrightarrow>
         frus_exist P (yaml_handle st) info (ls_name ss))"
  shows "post F
     (bus_op (put_subsys a (ss\<lparr>speed := fand_choose_speed ss\<rparr>) st) (speed_trace P (yaml_handle st) ss))
     (fand_set_fanspeed P a st)"
proof (cases "yaml_get_fan_info P (yaml_handle st) (ls_name ss)")
  case None
  with ss show ?thesis by (simp add: fand_set_fanspeed_def get_subsys_def speed_trace_def bus_op_Nil)
next
  case (Some info)
  obtain label v where set: "fand_speed_setting info (fand_choose_speed ss) = (label, v)"
    by (cases "fand_speed_setting info (fand_choose_speed ss)")
  define st1 where "st1 = put_subsys a (ss\<lparr>speed := fand_choose_speed ss\<rparr>) st"
  define st2 where "st2 = log_io (FanSpeedEvent (ls_name ss) label v) st1"
  have y: "yaml_handle st2 = yaml_handle st" by (simp add: st2_def st1_def)
  have log: "bus_op st1 [FanSpeedEvent (ls_name ss) label v] st2"
    by (simp add: st2_def bus_op_def)
  have "NullDeref \<in> F \<or> frus_exist P (yaml_handle st2) info (ls_name ss)"
    using F Some y by simp
  note controls = post_speed_controls [OF this, of v]
  have "fand_set_fanspeed P a st =
     (if fan_speed_control_type info = SINGLE then
        (case info_fan_speed_control info of
           None \<Rightarrow> Inr st2 | Some op \<Rightarrow> Inr (snd (bus_write P (ls_name ss) (Some op) v st2)))
      else foreach (fand_write_fru_speed P info (ls_name ss) v) [0 ..< number_fan_frus info] st2)"
    using ss Some set by (simp add: fand_set_fanspeed_def get_subsys_def Let_def st1_def st2_def
        split: option.split)
  with controls have "post F (bus_op st2 (speed_writes P (yaml_handle st2) info (ls_name ss) v))
      (fand_set_fanspeed P a st)" by (simp only:)
  then have "post F (bus_op st1 ([FanSpeedEvent (ls_name ss) label v] @
      speed_writes P (yaml_handle st2) info (ls_name ss) v)) (fand_set_fanspeed P a st)"
    by (rule post_mono) (rule bus_op_trans [OF log])
  then show ?thesis using Some set y by (simp add: speed_trace_def st1_def)
qed

text \<open>Only the name and the two levels that are chosen from matter.\<close>

lemma choose_speed_cong:
  assumes "fan_speed ss = fan_speed ss'" "fan_speed_override ss = fan_speed_override ss'"
  shows "fand_choose_speed ss = fand_choose_speed ss'"
  unfolding fand_choose_speed_def assms ..

lemma speed_trace_cong:
  "ls_name ss' = ls_name ss \<Longrightarrow> fan_speed ss' = fan_speed ss \<Longrightarrow>
    fan_speed_override ss' = fan_speed_override ss \<Longrightarrow> speed_trace P y ss' = speed_trace P y ss"
  by (simp add: speed_trace_def choose_speed_cong [of ss' ss] cong: option.case_cong)

definition speed_ok :: "('s, 'y, 'h) platform \<Rightarrow> addr \<Rightarrow> ('s, 'y, 'h) fand \<Rightarrow> bool" where
  "speed_ok P a st \<longleftrightarrow> yaml_ok P \<and> subsys_mem st a \<noteq> None"

lemma fand_set_fanspeed_total:
  assumes "yaml_ok P" "subsys_mem st a = Some ss"
  shows "post {} (bus_op (put_subsys a (ss\<lparr>speed := fand_choose_speed ss\<rparr>) st)
    (speed_trace P (yaml_handle st) ss)) (fand_set_fanspeed P a st)"
  using assms by (intro post_fand_set_fanspeed) (auto intro: frus_exist_yaml_ok)

text \<open>The level is stored in the subsystem, and the writes of its trace reach the bus.\<close>

definition speed_effect :: "('s, 'y, 'h) platform \<Rightarrow> addr \<Rightarrow> ('s, 'y, 'h) fand \<Rightarrow> ('s, 'y, 'h) fand \<Rightarrow> bool" where
  "speed_effect P a st st' \<longleftrightarrow> (\<exists>ss. subsys_mem st a = Some ss \<and>
     bus_op (put_subsys a (ss\<lparr>speed := fand_choose_speed ss\<rparr>) st) (speed_trace P (yaml_handle st) ss) st')"

interpretation speed_op: hw_op "fand_set_fanspeed P" "speed_ok P" "{}" "speed_effect P"
  for P :: "('s, 'y, 'h) platform"
proof
  fix st st' :: "('s, 'y, 'h) fand" and a
  assume "same_links st st'" "speed_ok P a st"
  then show "speed_ok P a st'" by (auto simp: speed_ok_def dest: same_links_subsys)
next
  fix st :: "('s, 'y, 'h) fand" and a
  assume "speed_ok P a st"
  then obtain ss where "yaml_ok P" "subsys_mem st a = Some ss" by (auto simp: speed_ok_def)
  from fand_set_fanspeed_total [OF this] this(2)
  show "post {} (speed_effect P a st) (fand_set_fanspeed P a st)"
    by (auto simp: speed_effect_def elim: post_mono)
next
  fix st st' :: "('s, 'y, 'h) fand" and a
  assume "speed_effect P a st st'"
  then obtain ss where ss: "subsys_mem st a = Some ss"
    and "same_daemon (put_subsys a (ss\<lparr>speed := fand_choose_speed ss\<rparr>) st) st'"
    by (auto simp: speed_effect_def bus_op_def)
  then show "hw_frame st st'"
    using hw_frame_put_subsys [OF ss, of "ss\<lparr>speed := fand_choose_speed ss\<rparr>"]
    by (auto simp: subsys_link_def intro: hw_frame_trans same_daemon_frame)
qed

section \<open>Properties\<close>

text \<open>
  C10: setting the speed of a live subsystem never faults when the description lists its FRUs. It stores
  the chosen level, logs the level, and writes the level's byte, in FRU order and nothing else, to the
  single control, to every FRU's control or to every fan's control, as the description says.
\<close>

theorem set_fanspeed_writes:
  assumes "yaml_ok P" "subsys_mem st a = Some ss"
    and "yaml_get_fan_info P (yaml_handle st) (ls_name ss) = Some info"
    and "fand_speed_setting info (fand_choose_speed ss) = (label, v)"
  shows "\<exists>st'. fand_set_fanspeed P a st = Inr st' \<and>
    subsys_mem st' = (subsys_mem st)(a \<mapsto> ss\<lparr>speed := fand_choose_speed ss\<rparr>) \<and>
    fan_mem st' = fan_mem st \<and> idl st' = idl st \<and>
    io st' = io st @ FanSpeedEvent (ls_name ss) label v #
      (case fan_speed_control_type info of
         SINGLE \<Rightarrow> opt_write (ls_name ss) v (info_fan_speed_control info)
       | PER_FRU \<Rightarrow> concat (map (\<lambda>i. opt_write (ls_name ss) v
             (fru_fan_speed_control (the (yaml_get_fan_fru P (yaml_handle st) (ls_name ss) i))))
           [0 ..< number_fan_frus info])
       | PER_FAN \<Rightarrow> concat (map (\<lambda>i. concat (map (\<lambda>f. opt_write (ls_name ss) v (yf_fan_speed_control f))
             (fru_fans (the (yaml_get_fan_fru P (yaml_handle st) (ls_name ss) i)))))
           [0 ..< number_fan_frus info])
       | CONTROL_TYPE_OTHER _ \<Rightarrow> [])"
proof -
  let ?fru = "yaml_get_fan_fru P (yaml_handle st) (ls_name ss)"
  have "?fru i \<noteq> None" if "i < number_fan_frus info" for i
    using frus_exist_yaml_ok [OF assms(1,3)] that by (simp add: frus_exist_def)
  then have maps: "map (\<lambda>i. case ?fru i of None \<Rightarrow> [] | Some fru \<Rightarrow> g fru) [0 ..< number_fan_frus info] =
      map (\<lambda>i. g (the (?fru i))) [0 ..< number_fan_frus info]" for g :: "YamlFanFru \<Rightarrow> io_event list"
    by (intro map_cong) (force split: option.split)+
  from post_total [OF fand_set_fanspeed_total [OF assms(1,2)]] obtain st'
    where st': "fand_set_fanspeed P a st = Inr st'"
      and b: "bus_op (put_subsys a (ss\<lparr>speed := fand_choose_speed ss\<rparr>) st) (speed_trace P (yaml_handle st) ss) st'"
    by blast
  have "speed_trace P (yaml_handle st) ss = FanSpeedEvent (ls_name ss) label v #
      speed_writes P (yaml_handle st) info (ls_name ss) v"
    using assms(3,4) by (simp add: speed_trace_def)
  with st' b show ?thesis
    by (cases "fan_speed_control_type info")
      (auto simp: bus_op_def speed_writes_def maps dest: same_daemon_fields)
qed

end
