(* ===== verification/Physfan_Leds.thy ===== *)
theory Physfan_Leds
  imports Physfan_Speed
begin

text \<open>
  The LEDs of \<open>physfan.c\<close>: finding a fan of a subsystem by its short name, the status of a FRU as the
  highest status of its fans, the FRU LEDs and the LED of the whole subsystem.
\<close>

section \<open>Finding a fan\<close>

text \<open>
  The loop of \<open>get_local_fan\<close>: it stops at the first fan of the given name. When no fan has the name,
  its variable \<open>fan\<close> still points to the last fan visited, and that is what is returned.
\<close>

primrec find_local_fan :: "(addr \<Rightarrow> locl_fan option) \<Rightarrow> string \<Rightarrow> addr list \<Rightarrow> addr option \<Rightarrow>
    fault + addr option" where
  "find_local_fan mem fullname [] fan = Inr fan"
| "find_local_fan mem fullname (p # ps) fan =
     and_then (deref UseAfterFree (mem p)) (\<lambda>f.
       if lf_name f = fullname then Inr (Some p) else find_local_fan mem fullname ps (Some p))"

text \<open>\<open>snprintf\<close> into 128 bytes keeps the first 127 characters.\<close>

definition get_local_fan :: "('s, 'y, 'h) platform \<Rightarrow> 's locl_subsystem \<Rightarrow> string \<Rightarrow>
    ('s, 'y, 'h) fand \<Rightarrow> fault + addr option" where
  "get_local_fan P ss name st =
     find_local_fan (fan_mem st) (take 127 (full_name (ls_name ss) name))
       (map snd (shash_nodes P (subsystem_fans ss))) None"

section \<open>Setting the LEDs\<close>

definition fand_led_value :: "YamlFanInfo \<Rightarrow> fanstatus \<Rightarrow> u8" where
  "fand_led_value info s =
     (case s of
        FAND_STATUS_UNINITIALIZED \<Rightarrow> word_of_int (led_off (fan_led_values info))
      | FAND_STATUS_OK \<Rightarrow> word_of_int (led_good (fan_led_values info))
      | _ \<Rightarrow> word_of_int (led_fault (fan_led_values info)))"

definition fand_set_led :: "('s, 'y, 'h) platform \<Rightarrow> string \<Rightarrow> YamlFanInfo \<Rightarrow> i2c_op option \<Rightarrow> fanstatus \<Rightarrow>
    ('s, 'y, 'h) fand \<Rightarrow> int \<times> ('s, 'y, 'h) fand" where
  "fand_set_led P name info led s st = bus_write P name led (fand_led_value info s) st"

text \<open>The loop over the fans of a FRU; \<open>s\<close> is the local \<open>status\<close>.\<close>

primrec fru_status :: "('s, 'y, 'h) platform \<Rightarrow> 's locl_subsystem \<Rightarrow> ('s, 'y, 'h) fand \<Rightarrow>
    YamlFan list \<Rightarrow> fanstatus \<Rightarrow> fault + fanstatus" where
  "fru_status P ss st [] s = Inr s"
| "fru_status P ss st (fan # fans) s =
     and_then (get_local_fan P ss (yf_name fan) st) (\<lambda>lfan.
       case lfan of
         None \<Rightarrow> fru_status P ss st fans s
       | Some p \<Rightarrow> and_then (get_fan p st) (\<lambda>f.
           fru_status P ss st fans (if status f > s then status f else s)))"

text \<open>The body of the loop over the FRUs, with the local \<open>aggr_status\<close> beside the state.\<close>

definition fand_set_fru_led :: "('s, 'y, 'h) platform \<Rightarrow> YamlFanInfo \<Rightarrow> 's locl_subsystem \<Rightarrow> nat \<Rightarrow>
    fanstatus \<times> ('s, 'y, 'h) fand \<Rightarrow> fault + fanstatus \<times> ('s, 'y, 'h) fand" where
  "fand_set_fru_led P info ss idx = (\<lambda>(aggr, st).
     and_then (deref NullDeref (yaml_get_fan_fru P (yaml_handle st) (ls_name ss) idx)) (\<lambda>fru.
     and_then (fru_status P ss st (fru_fans fru) FAND_STATUS_UNINITIALIZED) (\<lambda>s.
       let aggr = (if s > aggr then s else aggr)
       in case fru_fan_leds fru of
            None \<Rightarrow> Inr (aggr, st)
          | Some led \<Rightarrow> Inr (aggr, snd (fand_set_led P (ls_name ss) info (Some led) s st)))))"

definition fand_set_fanleds :: "('s, 'y, 'h) platform \<Rightarrow> addr \<Rightarrow>
    ('s, 'y, 'h) fand \<Rightarrow> fault + ('s, 'y, 'h) fand" where
  "fand_set_fanleds P a st =
     and_then (get_subsys a st) (\<lambda>ss.
       case yaml_get_fan_info P (yaml_handle st) (ls_name ss) of
         None \<Rightarrow> Inr st
       | Some info \<Rightarrow>
           and_then (foreach (fand_set_fru_led P info ss) [0 ..< number_fan_frus info]
               (FAND_STATUS_UNINITIALIZED, st)) (\<lambda>(aggr, st).
             case info_fan_led info of
               None \<Rightarrow> Inr st
             | Some led \<Rightarrow> Inr (snd (fand_set_led P (ls_name ss) info (Some led) aggr st))))"

section \<open>What the LEDs show\<close>

text \<open>The fan that \<open>get_local_fan\<close> finds when every pointer of the table is live.\<close>

definition local_fan :: "('s, 'y, 'h) platform \<Rightarrow> 's locl_subsystem \<Rightarrow> string \<Rightarrow>
    ('s, 'y, 'h) fand \<Rightarrow> addr option" where
  "local_fan P ss name st =
     (let ps = map snd (shash_nodes P (subsystem_fans ss))
      in case find (\<lambda>p. map_option lf_name (fan_mem st p) = Some (take 127 (full_name (ls_name ss) name))) ps of
           Some p \<Rightarrow> Some p
         | None \<Rightarrow> if ps = [] then None else Some (last ps))"

definition fans_live :: "('s, 'y, 'h) platform \<Rightarrow> 's locl_subsystem \<Rightarrow> ('s, 'y, 'h) fand \<Rightarrow> bool" where
  "fans_live P ss st \<longleftrightarrow> (\<forall>nd \<in> set (shash_nodes P (subsystem_fans ss)). fan_mem st (snd nd) \<noteq> None)"

lemma find_local_fan_eq:
  assumes "\<forall>p \<in> set ps. mem p \<noteq> None"
  shows "find_local_fan mem n ps cur = Inr (case find (\<lambda>p. map_option lf_name (mem p) = Some n) ps of
      Some p \<Rightarrow> Some p | None \<Rightarrow> if ps = [] then cur else Some (last ps))"
  using assms by (induction ps arbitrary: cur) (auto split: option.splits)

lemma get_local_fan_eq: "fans_live P ss st \<Longrightarrow> get_local_fan P ss name st = Inr (local_fan P ss name st)"
  unfolding get_local_fan_def local_fan_def Let_def
  by (subst find_local_fan_eq) (auto simp: fans_live_def)

lemma local_fan_live: "fans_live P ss st \<Longrightarrow> local_fan P ss name st = Some p \<Longrightarrow> fan_mem st p \<noteq> None"
  unfolding local_fan_def fans_live_def Let_def
  by (auto simp: find_Some_iff split: option.splits if_splits)
    (metis last_in_set last_map)

definition fan_level :: "('s, 'y, 'h) platform \<Rightarrow> 's locl_subsystem \<Rightarrow> ('s, 'y, 'h) fand \<Rightarrow>
    YamlFan \<Rightarrow> fanstatus" where
  "fan_level P ss st fan = (case local_fan P ss (yf_name fan) st of
     None \<Rightarrow> FAND_STATUS_UNINITIALIZED
   | Some p \<Rightarrow> (case fan_mem st p of None \<Rightarrow> FAND_STATUS_UNINITIALIZED | Some f \<Rightarrow> status f))"

definition max_level :: "fanstatus list \<Rightarrow> fanstatus" where
  "max_level ls = fold max ls FAND_STATUS_UNINITIALIZED"

definition fru_level :: "('s, 'y, 'h) platform \<Rightarrow> 's locl_subsystem \<Rightarrow> ('s, 'y, 'h) fand \<Rightarrow>
    nat \<Rightarrow> fanstatus" where
  "fru_level P ss st i = (case yaml_get_fan_fru P (yaml_handle st) (ls_name ss) i of
     None \<Rightarrow> FAND_STATUS_UNINITIALIZED
   | Some fru \<Rightarrow> max_level (map (fan_level P ss st) (fru_fans fru)))"

text \<open>The writes of one call: an LED per FRU that has one, then the LED of the subsystem.\<close>

definition fru_led_writes :: "('s, 'y, 'h) platform \<Rightarrow> 's locl_subsystem \<Rightarrow> ('s, 'y, 'h) fand \<Rightarrow>
    YamlFanInfo \<Rightarrow> nat \<Rightarrow> io_event list" where
  "fru_led_writes P ss st info i = (case yaml_get_fan_fru P (yaml_handle st) (ls_name ss) i of
     None \<Rightarrow> []
   | Some fru \<Rightarrow> opt_write (ls_name ss) (fand_led_value info (fru_level P ss st i)) (fru_fan_leds fru))"

definition led_trace :: "('s, 'y, 'h) platform \<Rightarrow> 's locl_subsystem \<Rightarrow> ('s, 'y, 'h) fand \<Rightarrow> io_event list" where
  "led_trace P ss st =
     (case yaml_get_fan_info P (yaml_handle st) (ls_name ss) of
        None \<Rightarrow> []
      | Some info \<Rightarrow>
          concat (map (fru_led_writes P ss st info) [0 ..< number_fan_frus info]) @
          opt_write (ls_name ss)
            (fand_led_value info (max_level (map (fru_level P ss st) [0 ..< number_fan_frus info])))
            (info_fan_led info))"

lemma if_greater_max [simp]: "(if (s :: 'a :: linorder) > t then s else t) = max s t"
  by (auto simp: max_def)

lemma fru_status_eq:
  assumes "fans_live P ss st"
  shows "fru_status P ss st fans s = Inr (fold max (map (fan_level P ss st) fans) s)"
proof (induction fans arbitrary: s)
  case (Cons fan fans)
  show ?case
  proof (cases "local_fan P ss (yf_name fan) st")
    case None
    then show ?thesis
      using Cons by (simp add: get_local_fan_eq [OF assms] fan_level_def max_absorb2)
  next
    case (Some p)
    with local_fan_live [OF assms] obtain f where "fan_mem st p = Some f" by blast
    with Some show ?thesis
      using Cons by (simp add: get_local_fan_eq [OF assms] fan_level_def get_fan_def)
  qed
qed simp

text \<open>A state reached by bus operations only shows the same levels.\<close>

lemma levels_bus:
  assumes "same_daemon st st'"
  shows "fru_level P ss st' i = fru_level P ss st i"
    and "fru_led_writes P ss st' info i = fru_led_writes P ss st info i"
    and "fans_live P ss st' = fans_live P ss st"
  using same_daemon_fields [OF assms]
  by (simp_all add: fru_level_def fru_led_writes_def fan_level_def local_fan_def fans_live_def
      fan_level_def [abs_def] cong: option.case_cong)

lemma post_fand_set_fru_led:
  assumes "fans_live P ss st" "yaml_get_fan_fru P (yaml_handle st) (ls_name ss) i \<noteq> None"
  shows "post F (\<lambda>(aggr', st'). aggr' = max (fru_level P ss st i) aggr \<and>
      bus_op st (fru_led_writes P ss st info i) st') (fand_set_fru_led P info ss i (aggr, st))"
proof -
  from assms(2) obtain fru where fru: "yaml_get_fan_fru P (yaml_handle st) (ls_name ss) i = Some fru"
    by blast
  then show ?thesis
    by (cases "fru_fan_leds fru")
      (simp_all add: fand_set_fru_led_def fru_status_eq [OF assms(1)] fru_level_def fru_led_writes_def
        max_level_def opt_write_def bus_op_Nil bus_op_write fand_set_led_def Let_def)
qed

lemma post_fru_leds:
  assumes "fans_live P ss st" "\<forall>i \<in> set is. yaml_get_fan_fru P (yaml_handle st) (ls_name ss) i \<noteq> None"
  shows "post F (\<lambda>(aggr', st'). aggr' = fold max (map (fru_level P ss st) is) aggr \<and>
      bus_op st (concat (map (fru_led_writes P ss st info) is)) st')
    (foreach (fand_set_fru_led P info ss) is (aggr, st))"
  using assms
proof (induction "is" arbitrary: aggr st)
  case Nil
  then show ?case by (simp add: bus_op_Nil)
next
  case (Cons i "is")
  have "yaml_get_fan_fru P (yaml_handle st) (ls_name ss) i \<noteq> None" using Cons.prems by simp
  note step = post_fand_set_fru_led [OF Cons.prems(1) this, of F aggr info]
  have "post F (\<lambda>(aggr', st'). aggr' = fold max (map (fru_level P ss st) is) (max (fru_level P ss st i) aggr) \<and>
      bus_op st (fru_led_writes P ss st info i @ concat (map (fru_led_writes P ss st info) is)) st')
    (and_then (fand_set_fru_led P info ss i (aggr, st)) (foreach (fand_set_fru_led P info ss) is))"
    using step
  proof (rule post_and_then, clarify)
    fix st1
    assume bus: "bus_op st (fru_led_writes P ss st info i) st1"
    then have sd: "same_daemon st st1" by (simp add: bus_op_def)
    have "fans_live P ss st1" "\<forall>i \<in> set is. yaml_get_fan_fru P (yaml_handle st1) (ls_name ss) i \<noteq> None"
      using Cons.prems by (simp_all add: levels_bus(3) [OF sd] same_daemon_fields [OF sd])
    from Cons.IH [OF this, of "max (fru_level P ss st i) aggr"]
    show "post F (\<lambda>(aggr', st'). aggr' = fold max (map (fru_level P ss st) is) (max (fru_level P ss st i) aggr) \<and>
        bus_op st (fru_led_writes P ss st info i @ concat (map (fru_led_writes P ss st info) is)) st')
      (foreach (fand_set_fru_led P info ss) is (max (fru_level P ss st i) aggr, st1))"
      by (rule post_mono) (auto simp: levels_bus [OF sd] intro: bus_op_trans [OF bus])
  qed
  then show ?case by simp
qed

lemma post_fand_set_fanleds:
  assumes ss: "subsys_mem st a = Some ss" and live: "fans_live P ss st" and y: "yaml_ok P"
  shows "post F (bus_op st (led_trace P ss st)) (fand_set_fanleds P a st)"
proof (cases "yaml_get_fan_info P (yaml_handle st) (ls_name ss)")
  case None
  with ss show ?thesis by (simp add: fand_set_fanleds_def get_subsys_def led_trace_def bus_op_Nil)
next
  case (Some info)
  have "\<forall>i \<in> set [0 ..< number_fan_frus info]. yaml_get_fan_fru P (yaml_handle st) (ls_name ss) i \<noteq> None"
    using frus_exist_yaml_ok [OF y Some] by (simp add: frus_exist_def)
  from post_fru_leds [OF live this, of F FAND_STATUS_UNINITIALIZED info]
  have "post F (bus_op st (led_trace P ss st))
     (and_then (foreach (fand_set_fru_led P info ss) [0 ..< number_fan_frus info]
         (FAND_STATUS_UNINITIALIZED, st)) (\<lambda>(aggr, st).
       case info_fan_led info of
         None \<Rightarrow> Inr st
       | Some led \<Rightarrow> Inr (snd (fand_set_led P (ls_name ss) info (Some led) aggr st))))"
  proof (rule post_and_then, clarify)
    fix st1
    assume bus: "bus_op st (concat (map (fru_led_writes P ss st info) [0 ..< number_fan_frus info])) st1"
    show "post F (bus_op st (led_trace P ss st)) (case info_fan_led info of
         None \<Rightarrow> Inr st1
       | Some led \<Rightarrow> Inr (snd (fand_set_led P (ls_name ss) info (Some led)
           (fold max (map (fru_level P ss st) [0 ..< number_fan_frus info]) FAND_STATUS_UNINITIALIZED) st1)))"
      using bus_op_trans [OF bus bus_op_write] bus Some
      by (cases "info_fan_led info") (auto simp: led_trace_def opt_write_def fand_set_led_def max_level_def)
  qed
  then show ?thesis using ss Some by (simp add: fand_set_fanleds_def get_subsys_def)
qed

definition leds_ok :: "('s, 'y, 'h) platform \<Rightarrow> addr \<Rightarrow> ('s, 'y, 'h) fand \<Rightarrow> bool" where
  "leds_ok P a st \<longleftrightarrow> yaml_ok P \<and> (\<exists>ss. subsys_mem st a = Some ss \<and> fans_live P ss st)"

definition leds_effect :: "('s, 'y, 'h) platform \<Rightarrow> addr \<Rightarrow> ('s, 'y, 'h) fand \<Rightarrow> ('s, 'y, 'h) fand \<Rightarrow> bool" where
  "leds_effect P a st st' \<longleftrightarrow> (\<exists>ss. subsys_mem st a = Some ss \<and> bus_op st (led_trace P ss st) st')"

interpretation leds_op: hw_op "fand_set_fanleds P" "leds_ok P" "{}" "leds_effect P"
  for P :: "('s, 'y, 'h) platform"
proof
  fix st st' :: "('s, 'y, 'h) fand" and a
  assume links: "same_links st st'" and "leds_ok P a st"
  then obtain ss ss' where y: "yaml_ok P" and live: "fans_live P ss st"
    and ss': "subsys_mem st' a = Some ss'" "subsystem_fans ss' = subsystem_fans ss"
    by (auto simp: leds_ok_def dest: same_links_subsys)
  have "fans_live P ss' st'"
    using live ss'(2) same_links_fan [OF links] by (fastforce simp: fans_live_def)
  with y ss' show "leds_ok P a st'" by (auto simp: leds_ok_def)
next
  fix st :: "('s, 'y, 'h) fand" and a
  assume "leds_ok P a st"
  then obtain ss where y: "yaml_ok P" and ss: "subsys_mem st a = Some ss" "fans_live P ss st"
    by (auto simp: leds_ok_def)
  show "post {} (leds_effect P a st) (fand_set_fanleds P a st)"
    by (rule post_mono [OF post_fand_set_fanleds [OF ss y]]) (use ss(1) in \<open>auto simp: leds_effect_def\<close>)
next
  fix st st' :: "('s, 'y, 'h) fand" and a
  assume "leds_effect P a st st'"
  then show "hw_frame st st'" by (auto simp: leds_effect_def bus_op_def same_daemon_frame)
qed

section \<open>Properties\<close>

text \<open>
  C18: the LEDs of a subsystem. One write per FRU that has an LED, then one to the subsystem's LED; a
  FRU's LED gets the value of the highest status of its fans, the subsystem's that of the highest status
  of all FRUs; nothing else of the daemon changes.
\<close>

theorem set_fanleds_writes:
  assumes "yaml_ok P" "subsys_mem st a = Some ss" "fans_live P ss st"
    and "yaml_get_fan_info P (yaml_handle st) (ls_name ss) = Some info"
  shows "\<exists>st'. fand_set_fanleds P a st = Inr st' \<and> subsys_mem st' = subsys_mem st \<and> fan_mem st' = fan_mem st \<and>
    io st' = io st @
      concat (map (fru_led_writes P ss st info) [0 ..< number_fan_frus info]) @
      opt_write (ls_name ss)
        (fand_led_value info (max_level (map (fru_level P ss st) [0 ..< number_fan_frus info])))
        (info_fan_led info)"
proof -
  from post_total [OF post_fand_set_fanleds [OF assms(2,3,1)]] obtain st'
    where "fand_set_fanleds P a st = Inr st'" "bus_op st (led_trace P ss st) st'" by blast
  with assms(4) show ?thesis by (auto simp: bus_op_def led_trace_def dest: same_daemon_fields)
qed

text \<open>
  C31: looking up a fan of a subsystem by its short name. If a fan of the table has the full name, cut to
  the 127 characters of the buffer, a fan with that name is found; if none has it the lookup does not
  fail: it returns the last fan of the table, so the LED logic uses the status of an unrelated fan.
\<close>

theorem get_local_fan_spec:
  assumes "fans_live P ss st" "shash_nodes P (subsystem_fans ss) \<noteq> []"
  shows "\<exists>p f. get_local_fan P ss n st = Inr (Some p) \<and> fan_mem st p = Some f \<and>
    (if \<exists>nd \<in> set (shash_nodes P (subsystem_fans ss)).
        map_option lf_name (fan_mem st (snd nd)) = Some (take 127 (full_name (ls_name ss) n))
     then lf_name f = take 127 (full_name (ls_name ss) n)
     else p = snd (last (shash_nodes P (subsystem_fans ss))))"
proof -
  let ?ps = "map snd (shash_nodes P (subsystem_fans ss))"
  let ?test = "\<lambda>p. map_option lf_name (fan_mem st p) = Some (take 127 (full_name (ls_name ss) n))"
  show ?thesis
  proof (cases "find ?test ?ps")
    case None
    then have "local_fan P ss n st = Some (last ?ps)" using assms(2) by (simp add: local_fan_def)
    moreover from local_fan_live [OF assms(1) this] obtain f where "fan_mem st (last ?ps) = Some f" by blast
    moreover have "\<not> (\<exists>nd \<in> set (shash_nodes P (subsystem_fans ss)). ?test (snd nd))"
      using None by (auto simp: find_None_iff)
    ultimately show ?thesis using get_local_fan_eq [OF assms(1)] assms(2) by (auto simp: last_map)
  next
    case (Some p)
    then have "?test p" by (auto simp: find_Some_iff)
    moreover have "\<exists>nd \<in> set (shash_nodes P (subsystem_fans ss)). ?test (snd nd)"
      using Some by (auto simp: find_Some_iff) (metis calculation nth_mem nth_map)
    moreover have "local_fan P ss n st = Some p" using Some by (simp add: local_fan_def)
    ultimately show ?thesis using get_local_fan_eq [OF assms(1)] by auto
  qed
qed

end
