(* ===== verification/Fandirection.thy ===== *)
theory Fandirection
  imports Enum_Table
begin

text \<open>
  \<open>fandirection.h\<close> and \<open>fandirection.c\<close>: the two air flow directions and their names.
\<close>

text \<open>
  \<open>enum fandirection\<close>. The enum has no negative enumerator, so its values are those of an unsigned
  type: \<open>FANDIRECTION_RAW n\<close> is the value \<open>2 + n\<close>, which no enumerator has.
\<close>

datatype fandirection = FAND_DIRECTION_F2B | FAND_DIRECTION_B2F | FANDIRECTION_RAW nat

primrec fandirection_val :: "fandirection \<Rightarrow> int" where
  "fandirection_val FAND_DIRECTION_F2B = 0"
| "fandirection_val FAND_DIRECTION_B2F = 1"
| "fandirection_val (FANDIRECTION_RAW n) = 2 + int n"

text \<open>The conversion of a \<open>size_t\<close>, hence non-negative, value to the enum.\<close>

definition fandirection_of :: "int \<Rightarrow> fandirection" where
  "fandirection_of i =
     (if i = 0 then FAND_DIRECTION_F2B
      else if i = 1 then FAND_DIRECTION_B2F
      else FANDIRECTION_RAW (nat (i - 2)))"

definition fandirection_string :: "string list" where
  "fandirection_string = [''f2b'', ''b2f'']"

definition fan_direction_string_to_enum :: "string option \<Rightarrow> fandirection" where
  "fan_direction_string_to_enum name =
     (case name of
        None \<Rightarrow> FAND_DIRECTION_F2B
      | Some n \<Rightarrow>
          (case table_search fandirection_string n 0 of
             Some i \<Rightarrow> fandirection_of (int i)
           | None \<Rightarrow> FAND_DIRECTION_F2B))"

definition fan_direction_enum_to_string :: "fandirection \<Rightarrow> string" where
  "fan_direction_enum_to_string d =
     (if fandirection_val d \<ge> 0 \<and> nat (fandirection_val d) < length fandirection_string
      then fandirection_string ! nat (fandirection_val d)
      else fandirection_string ! nat (fandirection_val FAND_DIRECTION_F2B))"

lemma fandirection_of_val: "fandirection_of (fandirection_val d) = d"
  by (cases d) (auto simp: fandirection_of_def)

lemma fandirection_val_of: "0 \<le> i \<Longrightarrow> fandirection_val (fandirection_of i) = i"
  by (auto simp: fandirection_of_def)

interpretation direction_table: enum_table
  fandirection_string fandirection_val fandirection_of FAND_DIRECTION_F2B 0
  fan_direction_string_to_enum fan_direction_enum_to_string
  by unfold_locales
    (auto simp: fandirection_string_def fandirection_val_of fandirection_of_val
      fan_direction_string_to_enum_def fan_direction_enum_to_string_def split: option.splits)

lemma fan_direction_enum_to_string_simps [simp]:
  "fan_direction_enum_to_string FAND_DIRECTION_F2B = ''f2b''"
  "fan_direction_enum_to_string FAND_DIRECTION_B2F = ''b2f''"
  by (simp_all add: fan_direction_enum_to_string_def fandirection_string_def)

lemma direction_named_iff: "direction_table.named d \<longleftrightarrow> d \<in> {FAND_DIRECTION_F2B, FAND_DIRECTION_B2F}"
  unfolding direction_table.named_def by (cases d) (simp_all add: fandirection_string_def)

end
