(* ===== verification/Physfan_Read.thy ===== *)
theory Physfan_Read
  imports Physfan_Leds Fandirection
begin

text \<open>
  The readings of \<open>physfan.c\<close>: a fan's tachometer, fault bit, air flow direction and presence, and
  \<open>fand_read_fan_status\<close>, which refreshes the cached \<open>struct locl_fan\<close> from them.
\<close>

section \<open>Single readings\<close>

definition fand_read_rpm :: "('s, 'y, 'h) platform \<Rightarrow> string \<Rightarrow> YamlFan \<Rightarrow>
    ('s, 'y, 'h) fand \<Rightarrow> s32 \<times> ('s, 'y, 'h) fand" where
  "fand_read_rpm P name fan st =
     (let (rc, dword, st) = bus_read P name (yf_fan_speed fan) 0 st
      in if rc \<noteq> 0 then (0, st)
         else case yf_fan_speed_msb fan of
                None \<Rightarrow> (dword, st)
              | Some msb \<Rightarrow>
                  (let rpm = dword;
                       (rc, dword, st) = bus_read P name (Some msb) dword st
                   in if rc \<noteq> 0 then (0, st) else (rpm + push_bit 8 dword, st)))"

text \<open>The static function \<open>fand_read_status\<close> of \<open>physfan.c\<close> (\<open>fand.c\<close> has one of the same name).\<close>

definition physfan_read_status :: "('s, 'y, 'h) platform \<Rightarrow> string \<Rightarrow> YamlFan \<Rightarrow>
    ('s, 'y, 'h) fand \<Rightarrow> fanstatus \<times> ('s, 'y, 'h) fand" where
  "physfan_read_status P name fan st =
     (let (rc, v, st) = bus_read P name (yf_fan_fault fan) 0 st
      in if rc \<noteq> 0 then (FAND_STATUS_UNINITIALIZED, st)
         else if v \<noteq> 0 then (FAND_STATUS_FAULT, st)
         else (FAND_STATUS_OK, st))"

text \<open>\<open>info\<close> may be NULL; it is dereferenced only when the reading succeeds.\<close>

definition fand_read_fan_fru_direction :: "('s, 'y, 'h) platform \<Rightarrow> string \<Rightarrow> YamlFanFru \<Rightarrow>
    YamlFanInfo option \<Rightarrow> ('s, 'y, 'h) fand \<Rightarrow> fault + fandirection \<times> ('s, 'y, 'h) fand" where
  "fand_read_fan_fru_direction P name fru info st =
     (let (rc, v, st) = bus_read P name (fru_fan_direction_detect fru) (stack_junk P) st
      in if rc \<noteq> 0 then Inr (FAND_DIRECTION_F2B, st)
         else and_then (deref NullDeref info) (\<lambda>info.
           if v \<noteq> 0 then
             (if direction_f2b info \<noteq> 0 then Inr (FAND_DIRECTION_F2B, st)
              else Inr (FAND_DIRECTION_B2F, st))
           else
             (if direction_f2b info \<noteq> 0 then Inr (FAND_DIRECTION_B2F, st)
              else Inr (FAND_DIRECTION_F2B, st))))"

text \<open>The FRU of a fan: the first whose array holds a pointer to the same structure.\<close>

primrec find_fan_fru :: "(nat \<Rightarrow> YamlFanFru option) \<Rightarrow> addr \<Rightarrow> nat list \<Rightarrow> fault + YamlFanFru option" where
  "find_fan_fru get a [] = Inr None"
| "find_fan_fru get a (i # is) =
     and_then (deref NullDeref (get i)) (\<lambda>fru.
       if list_ex (\<lambda>g. a = yf_addr g) (fru_fans fru) then Inr (Some fru) else find_fan_fru get a is)"

definition fan_fru_get :: "('s, 'y, 'h) platform \<Rightarrow> string \<Rightarrow> YamlFan \<Rightarrow>
    ('s, 'y, 'h) fand \<Rightarrow> fault + YamlFanFru option" where
  "fan_fru_get P name fan st =
     (let n = sint (yaml_get_fan_fru_count P (yaml_handle st) name)
      in find_fan_fru (yaml_get_fan_fru P (yaml_handle st) name) (yf_addr fan) [0 ..< nat n])"

definition fand_read_direction :: "('s, 'y, 'h) platform \<Rightarrow> string \<Rightarrow> YamlFan \<Rightarrow>
    ('s, 'y, 'h) fand \<Rightarrow> fault + string \<times> ('s, 'y, 'h) fand" where
  "fand_read_direction P name fan st =
     and_then (fan_fru_get P name fan st) (\<lambda>fan_fru.
       case fan_fru of
         None \<Rightarrow> Inr (fan_direction_enum_to_string FAND_DIRECTION_F2B, st)
       | Some fru \<Rightarrow>
           (let info = yaml_get_fan_info P (yaml_handle st) name
            in if fru_fan_direction_detect fru \<noteq> None then
                 and_then (fand_read_fan_fru_direction P name fru info st) (\<lambda>(d, st).
                   Inr (fan_direction_enum_to_string d, st))
               else Inr (fan_direction_enum_to_string FAND_DIRECTION_F2B, st)))"

text \<open>
  The presence bit. The local \<open>present\<close> starts uninitialised and only a negative \<open>rc\<close> counts as a
  failure here, unlike in the other readings.
\<close>

definition fand_read_present :: "('s, 'y, 'h) platform \<Rightarrow> string \<Rightarrow> YamlFanFru option \<Rightarrow>
    ('s, 'y, 'h) fand \<Rightarrow> fault + bool \<times> ('s, 'y, 'h) fand" where
  "fand_read_present P name fru st =
     and_then (deref NullDeref fru) (\<lambda>fru.
       case fru_fan_present fru of
         None \<Rightarrow> Inr (True, st)
       | Some op \<Rightarrow>
           (let (rc, present, st) = bus_read P name (Some op) (stack_junk P) st;
                present = (if rc < 0 then 0 else present)
            in Inr (present \<noteq> 0, st)))"

section \<open>Refreshing a fan\<close>

text \<open>Lines 434-445: from the raw reading to revolutions per minute.\<close>

definition fan_rpm_scale :: "'s locl_subsystem \<Rightarrow> s32 \<Rightarrow> fault + s32" where
  "fan_rpm_scale ss raw =
     (if multiplier ss \<noteq> 0 then c_mul raw (multiplier ss)
      else if numerator ss \<noteq> 0 then
        (if raw \<noteq> 0 then c_div (numerator ss) raw else Inr 0)
      else Inr raw)"

text \<open>Lines 433-447, for a fan that is present; \<open>fan\<close> is the content of the block at \<open>p\<close>.\<close>

definition fand_read_present_fan :: "('s, 'y, 'h) platform \<Rightarrow> addr \<Rightarrow> 's locl_subsystem \<Rightarrow> locl_fan \<Rightarrow>
    ('s, 'y, 'h) fand \<Rightarrow> fault + ('s, 'y, 'h) fand" where
  "fand_read_present_fan P p ss fan st =
     (let (raw, st) = fand_read_rpm P (ls_name ss) (yaml_fan fan) st in
      and_then (fan_rpm_scale ss raw) (\<lambda>r.
        let fan = fan\<lparr>rpm := r\<rparr>; st = put_fan p fan st;
            (s, st) = physfan_read_status P (ls_name ss) (yaml_fan fan) st
        in Inr (put_fan p (fan\<lparr>status := s\<rparr>) st)))"

definition fand_read_fan_status :: "('s, 'y, 'h) platform \<Rightarrow> addr \<Rightarrow>
    ('s, 'y, 'h) fand \<Rightarrow> fault + ('s, 'y, 'h) fand" where
  "fand_read_fan_status P p st =
     and_then (get_fan p st) (\<lambda>fan.
     and_then (get_subsys (subsystem fan) st) (\<lambda>ss.
     and_then (fand_read_direction P (ls_name ss) (yaml_fan fan) st) (\<lambda>(d, st).
       let fan = fan\<lparr>direction := d\<rparr>; st = put_fan p fan st in
     and_then (fan_fru_get P (ls_name ss) (yaml_fan fan) st) (\<lambda>fru.
     and_then (fand_read_present P (ls_name ss) fru st) (\<lambda>(present, st).
       if \<not> present then
         Inr (put_fan p (fan\<lparr>status := FAND_STATUS_FAULT, rpm := 0\<rparr>) st)
       else fand_read_present_fan P p ss fan st)))))"

section \<open>Frames and results\<close>

lemma fand_read_rpm_daemon [simp]: "same_daemon st (snd (fand_read_rpm P name fan st))"
proof -
  obtain rc v st1 where r: "bus_read P name (yf_fan_speed fan) 0 st = (rc, v, st1)"
    by (cases "bus_read P name (yf_fan_speed fan) 0 st")
  then have 1: "same_daemon st st1" by (rule same_daemon_readD)
  show ?thesis
  proof (cases "yf_fan_speed_msb fan")
    case (Some msb)
    obtain rc' v' st2 where r': "bus_read P name (Some msb) v st1 = (rc', v', st2)"
      by (cases "bus_read P name (Some msb) v st1")
    then have "same_daemon st1 st2" by (rule same_daemon_readD)
    with 1 have "same_daemon st st2" by (rule same_daemon_trans)
    with 1 r r' Some show ?thesis by (simp add: fand_read_rpm_def)
  qed (use 1 r in \<open>simp add: fand_read_rpm_def\<close>)
qed

lemma physfan_read_status_daemon [simp]: "same_daemon st (snd (physfan_read_status P name fan st))"
  by (auto simp: physfan_read_status_def dest: same_daemon_readD split: prod.splits)

lemma post_read_present:
  "NullDeref \<in> F \<or> fru \<noteq> None \<Longrightarrow>
    post F (\<lambda>(b, st'). same_daemon st st' \<and> (fru_fan_present (the fru) = None \<longrightarrow> b \<and> st' = st))
      (fand_read_present P name fru st)"
  by (cases fru) (auto simp: fand_read_present_def Let_def dest: same_daemon_readD
      split: option.splits prod.splits)

lemma post_read_fru_direction:
  "NullDeref \<in> F \<or> info \<noteq> None \<Longrightarrow>
    post F (\<lambda>(d, st'). same_daemon st st' \<and> (d = FAND_DIRECTION_F2B \<or> d = FAND_DIRECTION_B2F))
      (fand_read_fan_fru_direction P name fru info st)"
  by (cases info) (auto simp: fand_read_fan_fru_direction_def Let_def dest: same_daemon_readD
      split: prod.splits)

lemma find_fan_fru_eq:
  assumes "\<forall>i \<in> set is. get i \<noteq> None"
  shows "find_fan_fru get a is = Inr (map_option (\<lambda>i. the (get i))
    (find (\<lambda>i. a \<in> yf_addr ` set (fru_fans (the (get i)))) is))"
  using assms by (induction "is") (auto simp: list_ex_iff)

lemma fan_fru_get_eq:
  assumes y: "yaml_ok P"
  shows "fan_fru_get P name fan st = Inr (map_option (\<lambda>i. the (yaml_get_fan_fru P (yaml_handle st) name i))
    (find (\<lambda>i. yf_addr fan \<in> yf_addr ` set (fru_fans (the (yaml_get_fan_fru P (yaml_handle st) name i))))
      [0 ..< unat (yaml_get_fan_fru_count P (yaml_handle st) name)]))"
  unfolding fan_fru_get_def Let_def yaml_count_signed [OF y]
  by (rule find_fan_fru_eq) (auto dest: yaml_fru_exists [OF y])

lemma yaml_fans_fru:
  assumes y: "yaml_ok P" and g: "g \<in> set (yaml_fans P h name)"
  shows "\<exists>i fru. i < unat (yaml_get_fan_fru_count P h name) \<and>
    yaml_get_fan_fru P h name i = Some fru \<and> g \<in> set (fru_fans fru)"
  using g by (auto simp: yaml_fans_def split: option.splits) metis

text \<open>A fan of the hardware description has a FRU.\<close>

lemma fan_fru_get_found:
  assumes y: "yaml_ok P" and g: "g \<in> set (yaml_fans P (yaml_handle st) name)"
  shows "\<exists>fru. fan_fru_get P name g st = Inr (Some fru) \<and> yf_addr g \<in> yf_addr ` set (fru_fans fru)"
proof -
  let ?get = "yaml_get_fan_fru P (yaml_handle st) name"
  let ?n = "unat (yaml_get_fan_fru_count P (yaml_handle st) name)"
  let ?test = "\<lambda>i. yf_addr g \<in> yf_addr ` set (fru_fans (the (?get i)))"
  from yaml_fans_fru [OF y g] obtain i fru where i: "i < ?n" "?get i = Some fru" "g \<in> set (fru_fans fru)"
    by blast
  then have "?test i" by auto
  with i have "find ?test [0 ..< ?n] \<noteq> None" by (auto simp: find_None_iff)
  then obtain j where j: "find ?test [0 ..< ?n] = Some j" by blast
  then have "?test j" by (auto simp: find_Some_iff)
  with j show ?thesis by (auto simp: fan_fru_get_eq [OF y])
qed

lemma post_read_direction:
  assumes y: "yaml_ok P" and F: "NullDeref \<in> F \<or> yaml_get_fan_info P (yaml_handle st) name \<noteq> None"
  shows "post F (\<lambda>(d, st'). same_daemon st st' \<and> (d = ''f2b'' \<or> d = ''b2f''))
      (fand_read_direction P name fan st)"
proof -
  obtain f where f: "fan_fru_get P name fan st = Inr f" using fan_fru_get_eq [OF y] by blast
  show ?thesis
  proof (cases f)
    case (Some fru)
    from post_read_fru_direction [OF F, of st P name fru]
    have "post F (\<lambda>(d, st'). same_daemon st st' \<and> (d = ''f2b'' \<or> d = ''b2f''))
        (and_then (fand_read_fan_fru_direction P name fru (yaml_get_fan_info P (yaml_handle st) name) st)
          (\<lambda>(d, st). Inr (fan_direction_enum_to_string d, st)))"
      by (rule post_and_then) auto
    with f Some show ?thesis by (simp add: fand_read_direction_def)
  qed (use f in \<open>simp add: fand_read_direction_def\<close>)
qed

text \<open>What \<open>fand_read_fan_status\<close> needs: a live fan of a live subsystem that describes it.\<close>

definition read_ok :: "('s, 'y, 'h) platform \<Rightarrow> addr \<Rightarrow> ('s, 'y, 'h) fand \<Rightarrow> bool" where
  "read_ok P p st \<longleftrightarrow> yaml_ok P \<and> (\<exists>f ss. fan_mem st p = Some f \<and> subsys_mem st (subsystem f) = Some ss \<and>
     yaml_get_fan_info P (yaml_handle st) (ls_name ss) \<noteq> None \<and>
     yaml_fan f \<in> set (yaml_fans P (yaml_handle st) (ls_name ss)))"

lemma post_rpm_scale: "post {SignedOverflow} (\<lambda>_. True) (fan_rpm_scale ss raw)"
  by (simp add: fan_rpm_scale_def post_c_mul post_c_div)

text \<open>
  The call changes the readings of this fan and nothing else of the daemon; what it stores is one of
  the direction names and one of the status enumerators.
\<close>

definition fan_wf :: "locl_fan \<Rightarrow> bool" where
  "fan_wf f \<longleftrightarrow> direction f \<in> {''f2b'', ''b2f''} \<and>
     status f \<in> {FAND_STATUS_UNINITIALIZED, FAND_STATUS_OK, FAND_STATUS_FAULT}"

definition fan_refreshed :: "addr \<Rightarrow> locl_fan \<Rightarrow> ('s, 'y, 'h) fand \<Rightarrow> ('s, 'y, 'h) fand \<Rightarrow> bool" where
  "fan_refreshed p f st st' \<longleftrightarrow> (\<exists>f'. f' = f\<lparr>direction := direction f', rpm := rpm f', status := status f'\<rparr> \<and>
     fan_wf f' \<and> same_daemon (put_fan p f' st) st')"

lemma put_fan_put_fan [simp]: "put_fan p f (put_fan p f' st) = put_fan p f st"
  by (simp add: put_fan_def)

lemma same_daemon_put_fan:
  assumes "same_daemon st st'"
  shows "same_daemon (put_fan p f st) (put_fan p f st')"
proof -
  from assms obtain h es where "st' = st\<lparr>hw := h, io := io st @ es\<rparr>"
    by (auto simp: same_daemon_def)
  then have "put_fan p f st' = (put_fan p f st)\<lparr>hw := h, io := io (put_fan p f st) @ es\<rparr>"
    by (simp add: put_fan_def)
  then show ?thesis unfolding same_daemon_def by blast
qed

text \<open>Writing the fan, then using the bus, then writing the fan again.\<close>

lemma same_daemon_rewrite:
  assumes "same_daemon (put_fan p f1 st) st'"
  shows "same_daemon (put_fan p f st) (put_fan p f st')"
  using same_daemon_put_fan [OF assms, of p f] by simp

lemma physfan_read_status_named:
  "fst (physfan_read_status P name fan st) \<in> {FAND_STATUS_UNINITIALIZED, FAND_STATUS_OK, FAND_STATUS_FAULT}"
  by (auto simp: physfan_read_status_def split: prod.splits)

lemma fan_refreshedI:
  assumes "same_daemon (put_fan p (f\<lparr>direction := d, rpm := r, status := s\<rparr>) st) st'"
    and "d = ''f2b'' \<or> d = ''b2f''"
    and "s \<in> {FAND_STATUS_UNINITIALIZED, FAND_STATUS_OK, FAND_STATUS_FAULT}"
  shows "fan_refreshed p f st st'"
  unfolding fan_refreshed_def fan_wf_def
  by (rule exI [of _ "f\<lparr>direction := d, rpm := r, status := s\<rparr>"]) (use assms in auto)

lemma post_read_present_fan:
  assumes st': "same_daemon (put_fan p (f\<lparr>direction := d\<rparr>) st) st'" and d: "d = ''f2b'' \<or> d = ''b2f''"
  shows "post {SignedOverflow} (fan_refreshed p f st)
    (fand_read_present_fan P p ss (f\<lparr>direction := d\<rparr>) st')"
proof -
  let ?n = "ls_name ss" and ?g = "yaml_fan f"
  obtain raw st4 where rpm: "fand_read_rpm P ?n ?g st' = (raw, st4)" by (cases "fand_read_rpm P ?n ?g st'")
  with fand_read_rpm_daemon [of st' P ?n ?g] st'
  have st4: "same_daemon (put_fan p (f\<lparr>direction := d\<rparr>) st) st4" by (auto intro: same_daemon_trans)
  have "fan_refreshed p f st (put_fan p (f\<lparr>direction := d, rpm := r, status := s\<rparr>) st5)"
    if status: "physfan_read_status P ?n ?g (put_fan p (f\<lparr>direction := d, rpm := r\<rparr>) st4) = (s, st5)" for r s st5
  proof (rule fan_refreshedI [OF _ d])
    have "same_daemon (put_fan p (f\<lparr>direction := d, rpm := r\<rparr>) st) st5"
      using same_daemon_trans [OF same_daemon_rewrite [OF st4] physfan_read_status_daemon] status
      by (metis snd_conv)
    then show "same_daemon (put_fan p (f\<lparr>direction := d, rpm := r, status := s\<rparr>) st)
        (put_fan p (f\<lparr>direction := d, rpm := r, status := s\<rparr>) st5)" by (rule same_daemon_rewrite)
    show "s \<in> {FAND_STATUS_UNINITIALIZED, FAND_STATUS_OK, FAND_STATUS_FAULT}"
      using physfan_read_status_named status by (metis fst_conv)
  qed
  then show ?thesis
    by (auto simp: fand_read_present_fan_def rpm Let_def split: prod.split
        intro!: post_and_then [OF post_rpm_scale])
qed

text \<open>What follows the direction: the presence of the FRU, and the readings of a present one.\<close>

definition read_rest :: "('s, 'y, 'h) platform \<Rightarrow> addr \<Rightarrow> 's locl_subsystem \<Rightarrow> locl_fan \<Rightarrow>
    bool \<times> ('s, 'y, 'h) fand \<Rightarrow> fault + ('s, 'y, 'h) fand" where
  "read_rest P p ss fan = (\<lambda>(present, st). if \<not> present then
       Inr (put_fan p (fan\<lparr>status := FAND_STATUS_FAULT, rpm := 0\<rparr>) st)
     else fand_read_present_fan P p ss fan st)"

lemma post_read_rest:
  assumes st3: "same_daemon (put_fan p (f\<lparr>direction := d\<rparr>) st) st3" and d: "d = ''f2b'' \<or> d = ''b2f''"
  shows "post {SignedOverflow} (fan_refreshed p f st) (read_rest P p ss (f\<lparr>direction := d\<rparr>) (present, st3))"
proof -
  have "fan_refreshed p f st (put_fan p (f\<lparr>direction := d, rpm := 0, status := FAND_STATUS_FAULT\<rparr>) st3)"
    by (rule fan_refreshedI [OF same_daemon_rewrite [OF st3] d]) simp
  moreover have "f\<lparr>direction := d, status := FAND_STATUS_FAULT, rpm := 0\<rparr> =
      f\<lparr>direction := d, rpm := 0, status := FAND_STATUS_FAULT\<rparr>" by (cases f) simp
  ultimately have "fan_refreshed p f st
      (put_fan p (f\<lparr>direction := d, status := FAND_STATUS_FAULT, rpm := 0\<rparr>) st3)" by (simp only:)
  with post_read_present_fan [OF st3 d, of P ss] show ?thesis by (simp add: read_rest_def)
qed

lemma post_read_present_rest:
  assumes y: "yaml_ok P" and g: "yaml_fan f \<in> set (yaml_fans P (yaml_handle st) n)"
    and d: "d = ''f2b'' \<or> d = ''b2f''" and st1: "same_daemon st st1"
  shows "post {SignedOverflow} (fan_refreshed p f st)
    (and_then (fan_fru_get P n (yaml_fan f) (put_fan p (f\<lparr>direction := d\<rparr>) st1)) (\<lambda>fru.
     and_then (fand_read_present P n fru (put_fan p (f\<lparr>direction := d\<rparr>) st1)) (read_rest P p ss (f\<lparr>direction := d\<rparr>))))"
proof -
  define st2 where "st2 = put_fan p (f\<lparr>direction := d\<rparr>) st1"
  have st2: "same_daemon (put_fan p (f\<lparr>direction := d\<rparr>) st) st2"
    unfolding st2_def using st1 by (rule same_daemon_put_fan)
  have "yaml_handle st2 = yaml_handle st" using same_daemon_fields [OF st1] by (simp add: st2_def)
  with fan_fru_get_found [OF y, of "yaml_fan f" st2 n] g obtain fru
    where fru: "fan_fru_get P n (yaml_fan f) st2 = Inr (Some fru)" by auto
  have "post {SignedOverflow} (fan_refreshed p f st)
     (and_then (fand_read_present P n (Some fru) st2) (read_rest P p ss (f\<lparr>direction := d\<rparr>)))"
  proof (rule post_and_then, rule post_read_present, simp)
    fix x
    assume "case x of (b, st') \<Rightarrow> same_daemon st2 st' \<and> (fru_fan_present (the (Some fru)) = None \<longrightarrow> b \<and> st' = st2)"
    then obtain present st3 where x: "x = (present, st3)" and "same_daemon st2 st3" by (cases x) auto
    with st2 have "same_daemon (put_fan p (f\<lparr>direction := d\<rparr>) st) st3" by (blast intro: same_daemon_trans)
    from post_read_rest [OF this d]
    show "post {SignedOverflow} (fan_refreshed p f st) (read_rest P p ss (f\<lparr>direction := d\<rparr>) x)" by (simp add: x)
  qed
  with fru show ?thesis by (simp add: st2_def [symmetric])
qed

lemma post_fand_read_fan_status:
  assumes y: "yaml_ok P" and f: "fan_mem st p = Some f" and ss: "subsys_mem st (subsystem f) = Some ss"
    and info: "yaml_get_fan_info P (yaml_handle st) (ls_name ss) \<noteq> None"
    and g: "yaml_fan f \<in> set (yaml_fans P (yaml_handle st) (ls_name ss))"
  shows "post {SignedOverflow} (fan_refreshed p f st) (fand_read_fan_status P p st)"
proof -
  let ?n = "ls_name ss"
  have "NullDeref \<in> {SignedOverflow} \<or> yaml_get_fan_info P (yaml_handle st) ?n \<noteq> None" using info by simp
  from post_read_direction [OF y this, of "yaml_fan f"] have "post {SignedOverflow} (fan_refreshed p f st)
      (and_then (fand_read_direction P ?n (yaml_fan f) st) (\<lambda>(d, st). let fan = f\<lparr>direction := d\<rparr>; st = put_fan p fan st in
         and_then (fan_fru_get P ?n (yaml_fan fan) st) (\<lambda>fru.
         and_then (fand_read_present P ?n fru st) (read_rest P p ss fan))))"
    by (rule post_and_then) (use post_read_present_rest [OF y g] in \<open>auto simp: Let_def\<close>)
  then show ?thesis unfolding fand_read_fan_status_def read_rest_def using f ss
    by (simp add: get_fan_def get_subsys_def)
qed

definition read_effect :: "('s, 'y, 'h) platform \<Rightarrow> addr \<Rightarrow> ('s, 'y, 'h) fand \<Rightarrow> ('s, 'y, 'h) fand \<Rightarrow> bool" where
  "read_effect P p st st' \<longleftrightarrow> (\<exists>f. fan_mem st p = Some f \<and> fan_refreshed p f st st')"

lemma fan_link_update: "f' = f\<lparr>direction := d, rpm := r, status := s\<rparr> \<Longrightarrow> fan_link f' = fan_link f"
  by (simp add: fan_link_def)

interpretation read_op: hw_op "fand_read_fan_status P" "read_ok P" "{SignedOverflow}" "read_effect P"
  for P :: "('s, 'y, 'h) platform"
proof
  fix st st' :: "('s, 'y, 'h) fand" and p
  assume links: "same_links st st'" and "read_ok P p st"
  then obtain f ss where 1: "yaml_ok P" "yaml_get_fan_info P (yaml_handle st) (ls_name ss) \<noteq> None"
      "yaml_fan f \<in> set (yaml_fans P (yaml_handle st) (ls_name ss))"
    and f: "fan_mem st p = Some f" and ss: "subsys_mem st (subsystem f) = Some ss"
    by (auto simp: read_ok_def)
  from same_links_fan [OF links f] obtain f' where
    "fan_mem st' p = Some f'" "subsystem f' = subsystem f" "yaml_fan f' = yaml_fan f" by blast
  moreover from same_links_subsys [OF links ss] obtain ss' where
    "subsys_mem st' (subsystem f) = Some ss'" "ls_name ss' = ls_name ss" by blast
  moreover note 1
  ultimately show "read_ok P p st'" using links by (auto simp: read_ok_def same_links_def)
next
  fix st :: "('s, 'y, 'h) fand" and p
  assume "read_ok P p st"
  then obtain f ss where "yaml_ok P" and f: "fan_mem st p = Some f" and "subsys_mem st (subsystem f) = Some ss"
      "yaml_get_fan_info P (yaml_handle st) (ls_name ss) \<noteq> None"
      "yaml_fan f \<in> set (yaml_fans P (yaml_handle st) (ls_name ss))"
    by (auto simp: read_ok_def)
  from post_fand_read_fan_status [OF this] f
  show "post {SignedOverflow} (read_effect P p st) (fand_read_fan_status P p st)"
    by (auto simp: read_effect_def elim: post_mono)
next
  fix st st' :: "('s, 'y, 'h) fand" and p
  assume "read_effect P p st st'"
  then obtain f f' where f: "fan_mem st p = Some f"
    and f': "f' = f\<lparr>direction := direction f', rpm := rpm f', status := status f'\<rparr>"
    and sd: "same_daemon (put_fan p f' st) st'" unfolding read_effect_def fan_refreshed_def by blast
  from hw_frame_trans [OF hw_frame_put_fan [OF f fan_link_update [OF f']] same_daemon_frame [OF sd]]
  show "hw_frame st st'" .
qed

section \<open>Scaling\<close>

text \<open>With 16-bit readings and factors of this size the scaling is the one of the integers.\<close>

lemma rpm_scale_in_range:
  assumes "0 \<le> sint raw" "sint raw < 2 ^ 16"
    and "0 \<le> sint (multiplier ss)" "sint (multiplier ss) \<le> 32768" "0 \<le> sint (numerator ss)"
  shows "\<exists>r. fan_rpm_scale ss raw = Inr r \<and> 0 \<le> sint r \<and>
    sint r = (if multiplier ss \<noteq> 0 then sint raw * sint (multiplier ss)
              else if numerator ss \<noteq> 0 then sint (numerator ss) div sint raw
              else sint raw)"
proof -
  have mult: "\<exists>r. c_mul raw (multiplier ss) = Inr r \<and> sint r = sint raw * sint (multiplier ss)"
  proof -
    have "sint raw * sint (multiplier ss) \<le> (2 ^ 16 - 1) * 32768"
      using assms by (intro mult_mono) auto
    then have "int_min \<le> sint raw * sint (multiplier ss)" "sint raw * sint (multiplier ss) \<le> int_max"
      using assms(1,3) by (auto simp: int_min_def int_max_def intro: order.trans [OF _ mult_nonneg_nonneg])
    then show ?thesis unfolding c_mul_def c_int_of_Inr
      by (intro exI [of _ "word_of_int (sint raw * sint (multiplier ss))"])
        (simp only: sint_word_of_int_in_range simp_thms)
  qed
  have zero: "sint raw = 0 \<longleftrightarrow> raw = 0" by (metis sint_0 signed_word_eqI)
  have div: "\<exists>r. c_div (numerator ss) raw = Inr r \<and> sint r = sint (numerator ss) div sint raw" if "raw \<noteq> 0"
  proof -
    let ?q = "sint (numerator ss) div sint raw"
    have q: "sint (numerator ss) sdiv sint raw = ?q"
      using assms(1,5) by (auto simp: signed_divide_int_def sgn_if)
    have pos: "0 < sint raw" using that zero assms(1) by linarith
    then have "0 \<le> ?q" using assms(5) by (simp add: pos_imp_zdiv_nonneg_iff)
    moreover have "?q \<le> sint (numerator ss)" using pos assms(5) zdiv_mono2 [of "sint (numerator ss)" 1 "sint raw"] by simp
    moreover have "sint (numerator ss) < 2 ^ 31" using sint_lt [of "numerator ss"] by simp
    ultimately have "int_min \<le> ?q" "?q \<le> int_max" by (auto simp: int_min_def int_max_def)
    with that q show ?thesis by (simp add: c_div_def c_int_of_def sint_word_of_int_in_range)
  qed
  show ?thesis
    using mult div zero assms(1,3,5)
    by (cases "multiplier ss = 0"; cases "numerator ss = 0"; cases "raw = 0")
      (auto simp: fan_rpm_scale_def pos_imp_zdiv_nonneg_iff order_less_le)
qed

section \<open>Properties\<close>

text \<open>
  C17: refreshing a fan of a well-formed heap can fail only by overflow of the rpm; it changes this fan's
  direction, rpm and status and nothing else of the daemon, and leaves a direction and a status that the
  database accepts.
\<close>

theorem read_fan_status_effect:
  assumes "yaml_ok P" "fan_mem st p = Some f" "subsys_mem st (subsystem f) = Some ss"
    and "yaml_get_fan_info P (yaml_handle st) (ls_name ss) \<noteq> None"
    and "yaml_fan f \<in> set (yaml_fans P (yaml_handle st) (ls_name ss))"
  shows "post {SignedOverflow} (\<lambda>st'. \<exists>d r s. d \<in> {''f2b'', ''b2f''} \<and>
      s \<in> {FAND_STATUS_UNINITIALIZED, FAND_STATUS_OK, FAND_STATUS_FAULT} \<and>
      fan_mem st' = (fan_mem st)(p \<mapsto> f\<lparr>direction := d, rpm := r, status := s\<rparr>) \<and>
      subsys_mem st' = subsys_mem st \<and> subsystem_data st' = subsystem_data st \<and>
      fan_data st' = fan_data st \<and> idl st' = idl st)
    (fand_read_fan_status P p st)"
  using post_fand_read_fan_status [OF assms]
proof (rule post_mono)
  fix st' assume "fan_refreshed p f st st'"
  then obtain f' where f': "f\<lparr>direction := direction f', rpm := rpm f', status := status f'\<rparr> = f'"
    and wf: "fan_wf f'" and sd: "same_daemon (put_fan p f' st) st'" unfolding fan_refreshed_def by metis
  show "\<exists>d r s. d \<in> {''f2b'', ''b2f''} \<and>
      s \<in> {FAND_STATUS_UNINITIALIZED, FAND_STATUS_OK, FAND_STATUS_FAULT} \<and>
      fan_mem st' = (fan_mem st)(p \<mapsto> f\<lparr>direction := d, rpm := r, status := s\<rparr>) \<and>
      subsys_mem st' = subsys_mem st \<and> subsystem_data st' = subsystem_data st \<and>
      fan_data st' = fan_data st \<and> idl st' = idl st"
    using wf same_daemon_fields [OF sd]
    by (intro exI [of _ "direction f'"] exI [of _ "rpm f'"] exI [of _ "status f'"]) (simp add: f' fan_wf_def)
qed

text \<open>
  C24: what the presence pin decides. With a pin that reads as 0, or whose reading fails with a negative
  code, the fan is marked faulty with 0 rpm, and after the direction nothing but the pin is read: neither
  the tachometer nor the fault bit. In every other case the fan is read as a present one: also when the
  reading fails with a positive code, where the value is what was on the stack before.
\<close>

theorem presence_decides:
  assumes "fan_mem st p = Some f" "subsys_mem st (subsystem f) = Some ss"
    and "fand_read_direction P (ls_name ss) (yaml_fan f) st = Inr (d, st1)"
    and "fan_fru_get P (ls_name ss) (yaml_fan f) (put_fan p (f\<lparr>direction := d\<rparr>) st1) = Inr (Some fru)"
    and "fru_fan_present fru = Some op"
    and "bus_read P (ls_name ss) (Some op) (stack_junk P) (put_fan p (f\<lparr>direction := d\<rparr>) st1) = (rc, v, st2)"
  shows "if v = 0 \<or> rc < 0
    then \<exists>st'. fand_read_fan_status P p st = Inr st' \<and>
      fan_mem st' p = Some (f\<lparr>direction := d, rpm := 0, status := FAND_STATUS_FAULT\<rparr>) \<and>
      io st' = io st1 @ [I2cRead (ls_name ss) (Some op)]
    else fand_read_fan_status P p st = fand_read_present_fan P p ss (f\<lparr>direction := d\<rparr>) st2"
proof -
  have "f\<lparr>direction := d, status := FAND_STATUS_FAULT, rpm := 0\<rparr> = f\<lparr>direction := d, rpm := 0, status := FAND_STATUS_FAULT\<rparr>"
    by (cases f) simp
  moreover have "io st2 = io st1 @ [I2cRead (ls_name ss) (Some op)]"
    using io_read [of P "ls_name ss" "Some op" "stack_junk P" "put_fan p (f\<lparr>direction := d\<rparr>) st1"] assms(6) by simp
  ultimately show ?thesis
    using assms by (auto simp: fand_read_fan_status_def get_fan_def get_subsys_def fand_read_present_def Let_def)
qed

end
