(* ===== verification/Subsystems.thy ===== *)
theory Subsystems
  imports Physfan_Read
begin

text \<open>
  The subsystem table of \<open>fand.c\<close>: adding a subsystem with all its fans, looking one up, the mark and
  sweep that drops the subsystems the database no longer has.
\<close>

section \<open>Rows of the replica\<close>

definition fan_row_update :: "nat \<Rightarrow> (ovsrec_fan \<Rightarrow> ovsrec_fan) \<Rightarrow> ovsdb_idl \<Rightarrow> ovsdb_idl" where
  "fan_row_update u g i = i\<lparr>idl_fans := map (\<lambda>r. if of_uuid r = u then g r else r) (idl_fans i)\<rparr>"

definition set_subsystem_fans :: "nat \<Rightarrow> nat list \<Rightarrow> ovsdb_idl \<Rightarrow> ovsdb_idl" where
  "set_subsystem_fans u arr i =
     i\<lparr>idl_subsystems := map (\<lambda>r. if os_uuid r = u then r\<lparr>os_fans := arr\<rparr> else r) (idl_subsystems i)\<rparr>"

definition lookup_fan :: "string \<Rightarrow> ovsdb_idl \<Rightarrow> nat option" where
  "lookup_fan name i = map_option of_uuid (find (\<lambda>fan. of_name fan = name) (idl_fans i))"

definition commit_block :: "('s, 'y, 'h) platform \<Rightarrow> ovsdb_idl \<Rightarrow> ('s, 'y, 'h) fand \<Rightarrow> ('s, 'y, 'h) fand" where
  "commit_block P before st =
     st\<lparr>idl := txn_commit_block P before (idl st), io := io st @ [CommitEvent]\<rparr>"

section \<open>Adding a subsystem\<close>

definition init_subsystems :: "('s, 'y, 'h) platform \<Rightarrow> ('s, 'y, 'h) fand \<Rightarrow> ('s, 'y, 'h) fand" where
  "init_subsystems P st = st\<lparr>subsystem_data := shash_init P, fan_data := shash_init P\<rparr>"

text \<open>Lines 133-150: \<open>memset\<close> to 0 leaves \<open>speed\<close> at \<open>FAND_SPEED_SLOW\<close>.\<close>

definition new_subsystem :: "('s, 'y, 'h) platform \<Rightarrow> ovsrec_subsystem \<Rightarrow> 's locl_subsystem" where
  "new_subsystem P cfg =
     \<lparr>ls_name = os_name cfg, marked = False, valid = False, parent_subsystem = None,
      fan_speed = FAND_SPEED_NORMAL,
      fan_speed_override =
        (case os_other_config cfg ''fan_speed_override'' of
           None \<Rightarrow> FAND_SPEED_NONE
         | Some override \<Rightarrow> fan_speed_string_to_enum (Some override)),
      speed = fanspeed_of 0, multiplier = 0, numerator = 0,
      subsystem_fans = shash_init P\<rparr>"

text \<open>Lines 152-186: the directory is checked, then the three library calls, up to the first failure.\<close>

definition load_description :: "('s, 'y, 'h) platform \<Rightarrow> ovsrec_subsystem \<Rightarrow>
    ('s, 'y, 'h) fand \<Rightarrow> bool \<times> ('s, 'y, 'h) fand" where
  "load_description P cfg st =
     (case os_hw_desc_dir cfg of
        None \<Rightarrow> (False, st)
      | Some dir \<Rightarrow>
          if dir = [] then (False, st)
          else
            (let (y, rc) = yaml_add_subsystem P (yaml_handle st) (os_name cfg) dir;
                 st = st\<lparr>yaml_handle := y\<rparr>
             in if rc \<noteq> 0 then (False, st)
                else
                  (let (y, rc) = yaml_parse_devices P (yaml_handle st) (os_name cfg);
                       st = st\<lparr>yaml_handle := y\<rparr>
                   in if rc \<noteq> 0 then (False, st)
                      else
                        (let (y, rc) = yaml_parse_fans P (yaml_handle st) (os_name cfg);
                             st = st\<lparr>yaml_handle := y\<rparr>
                         in (rc = 0, st)))))"

text \<open>Lines 198-218: the fans of all FRUs are counted.\<close>

definition count_fans :: "('s, 'y, 'h) platform \<Rightarrow> 'y \<Rightarrow> string \<Rightarrow> nat \<Rightarrow> fault + nat" where
  "count_fans P y name n =
     foreach (\<lambda>i total. and_then (deref NullDeref (yaml_get_fan_fru P y name i)) (\<lambda>fru.
       Inr (total + length (fru_fans fru)))) [0 ..< n] 0"

text \<open>Lines 235-267: a fan is allocated, entered in both tables and given a database row.\<close>

definition new_fan :: "('s, 'y, 'h) platform \<Rightarrow> addr \<Rightarrow> string \<Rightarrow> addr \<Rightarrow> YamlFan \<Rightarrow> locl_fan" where
  "new_fan P p fan_name a fan =
     (let (s, d, r, t) = malloc_fan P p
      in \<lparr>lf_name = fan_name, subsystem = a, yaml_fan = fan, lf_speed = s, direction = d, rpm = r, status = t\<rparr>)"

definition fan_row_init :: "('s, 'y, 'h) platform \<Rightarrow> string \<Rightarrow> ovsdb_idl \<Rightarrow> nat \<times> ovsdb_idl" where
  "fan_row_init P fan_name i =
     (let (u, i) = (case lookup_fan fan_name i of
            Some u \<Rightarrow> (u, i)
          | None \<Rightarrow> (let (rows, u) = fan_insert P (idl_fans i) in (u, i\<lparr>idl_fans := rows\<rparr>)))
      in (u, fan_row_update u (\<lambda>r. r\<lparr>of_name := fan_name,
              of_status := fan_status_enum_to_string FAND_STATUS_UNINITIALIZED,
              of_direction := ''f2b'',
              of_speed := fan_speed_enum_to_string FAND_SPEED_NORMAL\<rparr>) i))"

definition add_fan :: "('s, 'y, 'h) platform \<Rightarrow> string \<Rightarrow> addr \<Rightarrow> YamlFan \<Rightarrow>
    nat list \<times> ('s, 'y, 'h) fand \<Rightarrow> fault + nat list \<times> ('s, 'y, 'h) fand" where
  "add_fan P name a fan = (\<lambda>(fan_array, st).
     let fan_name = full_name name (yf_name fan);
         p = next_addr st;
         st = put_fan p (new_fan P p fan_name a fan) (st\<lparr>next_addr := Suc p\<rparr>)
     in and_then (get_subsys a st) (\<lambda>ss.
          let st = put_subsys a (ss\<lparr>subsystem_fans := shash_add P (subsystem_fans ss) fan_name p\<rparr>) st;
              st = st\<lparr>fan_data := shash_add P (fan_data st) fan_name p\<rparr>;
              (u, i) = fan_row_init P fan_name (idl st)
          in Inr (fan_array @ [u], st\<lparr>idl := i\<rparr>)))"

definition add_fru_fans :: "('s, 'y, 'h) platform \<Rightarrow> 'y \<Rightarrow> string \<Rightarrow> addr \<Rightarrow> nat \<Rightarrow>
    nat list \<times> ('s, 'y, 'h) fand \<Rightarrow> fault + nat list \<times> ('s, 'y, 'h) fand" where
  "add_fru_fans P y name a idx s =
     and_then (deref NullDeref (yaml_get_fan_fru P y name idx)) (\<lambda>fru.
       foreach (add_fan P name a) (fru_fans fru) s)"

text \<open>Lines 210-278: the subsystem is valid; its fans are added in one transaction.\<close>

definition add_all_fans :: "('s, 'y, 'h) platform \<Rightarrow> ovsrec_subsystem \<Rightarrow> addr \<Rightarrow> nat \<Rightarrow>
    ('s, 'y, 'h) fand \<Rightarrow> fault + addr option \<times> ('s, 'y, 'h) fand" where
  "add_all_fans P cfg a n st =
     and_then (get_subsys a st) (\<lambda>ss.
       let st = put_subsys a (ss\<lparr>valid := True\<rparr>) st;
           name = os_name cfg in
       and_then (count_fans P (yaml_handle st) name n) (\<lambda>total_fans.
         let before = idl st;
             st = log_io (FanCountEvent name total_fans) st in
         and_then (foreach (add_fru_fans P (yaml_handle st) name a) [0 ..< n] ([], st)) (\<lambda>(fan_array, st).
           let st = st\<lparr>idl := set_subsystem_fans (os_uuid cfg) fan_array (idl st)\<rparr>;
               st = commit_block P before st in
           and_then (fand_set_fanspeed P a st) (\<lambda>st. Inr (Some a, st)))))"

definition add_subsystem :: "('s, 'y, 'h) platform \<Rightarrow> ovsrec_subsystem \<Rightarrow>
    ('s, 'y, 'h) fand \<Rightarrow> fault + addr option \<times> ('s, 'y, 'h) fand" where
  "add_subsystem P cfg st =
     (let a = next_addr st;
          st = put_subsys a (new_subsystem P cfg) (st\<lparr>next_addr := Suc a,
            subsystem_data := shash_add P (subsystem_data st) (os_name cfg) a\<rparr>);
          (ok, st) = load_description P cfg st
      in if \<not> ok then Inr (None, st)
         else case yaml_get_fan_info P (yaml_handle st) (os_name cfg) of
           None \<Rightarrow> Inr (None, st)
         | Some info \<Rightarrow>
             (let st = put_subsys a ((new_subsystem P cfg)\<lparr>multiplier := fan_speed_multiplier info,
                    numerator := fan_speed_numerator info\<rparr>) st;
                  n = yaml_get_fan_fru_count P (yaml_handle st) (os_name cfg)
              in if n \<le> 0 then Inr (None, st)
                 else add_all_fans P cfg a (unat n) st))"

section \<open>Looking up, marking, sweeping\<close>

definition get_subsystem :: "('s, 'y, 'h) platform \<Rightarrow> ovsrec_subsystem \<Rightarrow>
    ('s, 'y, 'h) fand \<Rightarrow> fault + addr option \<times> ('s, 'y, 'h) fand" where
  "get_subsystem P cfg st =
     (case shash_find P (subsystem_data st) (os_name cfg) of
        None \<Rightarrow> add_subsystem P cfg st
      | Some (_, a) \<Rightarrow>
          and_then (get_subsys a st) (\<lambda>ss.
            if \<not> valid ss then Inr (None, st) else Inr (Some a, st)))"

definition unmark_subsystem :: "string \<times> addr \<Rightarrow> ('s, 'y, 'h) fand \<Rightarrow> fault + ('s, 'y, 'h) fand" where
  "unmark_subsystem nd st =
     and_then (get_subsys (snd nd) st) (\<lambda>ss. Inr (put_subsys (snd nd) (ss\<lparr>marked := False\<rparr>) st))"

definition fand_unmark_subsystems :: "('s, 'y, 'h) platform \<Rightarrow>
    ('s, 'y, 'h) fand \<Rightarrow> fault + ('s, 'y, 'h) fand" where
  "fand_unmark_subsystems P st = foreach unmark_subsystem (shash_nodes P (subsystem_data st)) st"

text \<open>
  The inner loop body, lines 332-340. When \<open>fan_data\<close> has no node of the fan's name, the code hands a
  NULL node to \<open>shash_delete\<close>.
\<close>

definition remove_fan :: "('s, 'y, 'h) platform \<Rightarrow> addr \<Rightarrow> string \<times> addr \<Rightarrow>
    ('s, 'y, 'h) fand \<Rightarrow> fault + ('s, 'y, 'h) fand" where
  "remove_fan P a fan_node st =
     and_then (get_fan (snd fan_node) st) (\<lambda>fan.
     and_then (deref NullDeref (shash_find P (fan_data st) (lf_name fan))) (\<lambda>global_node.
       let st = st\<lparr>fan_data := shash_delete P (fan_data st) global_node\<rparr> in
     and_then (get_subsys a st) (\<lambda>ss.
       let st = put_subsys a (ss\<lparr>subsystem_fans := shash_delete P (subsystem_fans ss) fan_node\<rparr>) st
       in Inr (st\<lparr>fan_mem := (fan_mem st)(snd fan_node := None)\<rparr>))))"

definition sweep_subsystem :: "('s, 'y, 'h) platform \<Rightarrow> string \<times> addr \<Rightarrow>
    ('s, 'y, 'h) fand \<Rightarrow> fault + ('s, 'y, 'h) fand" where
  "sweep_subsystem P node st =
     and_then (get_subsys (snd node) st) (\<lambda>ss.
       if marked ss then Inr st
       else
         and_then (foreach (remove_fan P (snd node)) (shash_nodes P (subsystem_fans ss)) st) (\<lambda>st.
           Inr (st\<lparr>subsys_mem := (subsys_mem st)(snd node := None),
                   subsystem_data := shash_delete P (subsystem_data st) node\<rparr>)))"

definition fand_remove_unmarked_subsystems :: "('s, 'y, 'h) platform \<Rightarrow>
    ('s, 'y, 'h) fand \<Rightarrow> fault + ('s, 'y, 'h) fand" where
  "fand_remove_unmarked_subsystems P st =
     foreach (sweep_subsystem P) (shash_nodes P (subsystem_data st)) st"

end
