(* ===== verification/Fand_Inv.thy ===== *)
theory Fand_Inv
  imports Subsystems
begin

text \<open>
  The invariant of the daemon's heap: the tables list exactly the live blocks, every link leads to a
  live block, and every fan is described by the loaded hardware description. The lemmas show that the
  hardware operations and the elementary steps of \<open>fand.c\<close> keep it.
\<close>

section \<open>The invariant\<close>

definition subsystems_ok :: "('s, 'y, 'h) platform \<Rightarrow> ('s, 'y, 'h) fand \<Rightarrow> bool" where
  "subsystems_ok P st \<longleftrightarrow>
     distinct (map fst (shash_nodes P (subsystem_data st))) \<and>
     (\<forall>n a. (n, a) \<in> set (shash_nodes P (subsystem_data st)) \<longleftrightarrow>
        (\<exists>ss. subsys_mem st a = Some ss \<and> ls_name ss = n))"

definition fan_table_ok :: "('s, 'y, 'h) platform \<Rightarrow> ('s, 'y, 'h) fand \<Rightarrow> bool" where
  "fan_table_ok P st \<longleftrightarrow>
     distinct (map fst (shash_nodes P (fan_data st))) \<and>
     (\<forall>n p. (n, p) \<in> set (shash_nodes P (fan_data st)) \<longleftrightarrow>
        (\<exists>f. fan_mem st p = Some f \<and> lf_name f = n))"

definition subsystem_fans_ok :: "('s, 'y, 'h) platform \<Rightarrow> ('s, 'y, 'h) fand \<Rightarrow> bool" where
  "subsystem_fans_ok P st \<longleftrightarrow>
     (\<forall>p f. fan_mem st p = Some f \<longrightarrow> subsys_mem st (subsystem f) \<noteq> None) \<and>
     (\<forall>a ss. subsys_mem st a = Some ss \<longrightarrow>
        distinct (shash_nodes P (subsystem_fans ss)) \<and>
        (\<forall>n p. (n, p) \<in> set (shash_nodes P (subsystem_fans ss)) \<longleftrightarrow>
           (\<exists>f. fan_mem st p = Some f \<and> lf_name f = n \<and> subsystem f = a)))"

definition yaml_linked :: "('s, 'y, 'h) platform \<Rightarrow> ('s, 'y, 'h) fand \<Rightarrow> bool" where
  "yaml_linked P st \<longleftrightarrow>
     (\<forall>p f ss. fan_mem st p = Some f \<and> subsys_mem st (subsystem f) = Some ss \<longrightarrow>
        yaml_get_fan_info P (yaml_handle st) (ls_name ss) \<noteq> None \<and>
        yaml_fan f \<in> set (yaml_fans P (yaml_handle st) (ls_name ss)) \<and>
        lf_name f = full_name (ls_name ss) (yf_name (yaml_fan f)))"

definition addrs_ok :: "('s, 'y, 'h) fand \<Rightarrow> bool" where
  "addrs_ok st \<longleftrightarrow> (\<forall>a. subsys_mem st a \<noteq> None \<or> fan_mem st a \<noteq> None \<longrightarrow> a < next_addr st)"

definition fand_inv :: "('s, 'y, 'h) platform \<Rightarrow> ('s, 'y, 'h) fand \<Rightarrow> bool" where
  "fand_inv P st \<longleftrightarrow> subsystems_ok P st \<and> fan_table_ok P st \<and> subsystem_fans_ok P st \<and>
     yaml_linked P st \<and> addrs_ok st"

lemmas fand_inv_defs = fand_inv_def subsystems_ok_def fan_table_ok_def subsystem_fans_ok_def
  yaml_linked_def addrs_ok_def

text \<open>An empty daemon, as \<open>fand_init\<close> leaves it.\<close>

definition no_blocks :: "('s, 'y, 'h) fand \<Rightarrow> bool" where
  "no_blocks st \<longleftrightarrow> subsys_mem st = Map.empty \<and> fan_mem st = Map.empty"

section \<open>The invariant is about the links\<close>

lemma links_subsys_ex:
  assumes "same_links st st'"
  shows "(\<exists>ss. subsys_mem st' a = Some ss \<and> Q (ls_name ss) (subsystem_fans ss)) \<longleftrightarrow>
         (\<exists>ss. subsys_mem st a = Some ss \<and> Q (ls_name ss) (subsystem_fans ss))"
proof -
  have "map_option subsys_link (subsys_mem st' a) = map_option subsys_link (subsys_mem st a)"
    using assms by (simp add: same_links_def)
  then show ?thesis
    by (cases "subsys_mem st' a"; cases "subsys_mem st a") (auto simp: subsys_link_def)
qed

lemma links_fan_ex:
  assumes "same_links st st'"
  shows "(\<exists>f. fan_mem st' p = Some f \<and> Q (lf_name f) (subsystem f) (yaml_fan f)) \<longleftrightarrow>
         (\<exists>f. fan_mem st p = Some f \<and> Q (lf_name f) (subsystem f) (yaml_fan f))"
proof -
  have "map_option fan_link (fan_mem st' p) = map_option fan_link (fan_mem st p)"
    using assms by (simp add: same_links_def)
  then show ?thesis
    by (cases "fan_mem st' p"; cases "fan_mem st p") (auto simp: fan_link_def)
qed

lemma subsystem_fans_links:
  assumes l: "same_links st st'" and ok: "subsystem_fans_ok P st"
  shows "subsystem_fans_ok P st'"
  unfolding subsystem_fans_ok_def
proof (intro conjI allI impI)
  fix p f assume "fan_mem st' p = Some f"
  with same_links_fan [OF same_links_sym [OF l]] obtain f0
    where "fan_mem st p = Some f0" "subsystem f0 = subsystem f" by metis
  then have "subsys_mem st (subsystem f) \<noteq> None" using ok by (force simp: subsystem_fans_ok_def)
  then show "subsys_mem st' (subsystem f) \<noteq> None" using same_links_subsys [OF l] by blast
next
  fix a ss assume "subsys_mem st' a = Some ss"
  with same_links_subsys [OF same_links_sym [OF l]] obtain ss0
    where "subsys_mem st a = Some ss0" "subsystem_fans ss0 = subsystem_fans ss" by metis
  then have "distinct (shash_nodes P (subsystem_fans ss)) \<and>
      (\<forall>n p. (n, p) \<in> set (shash_nodes P (subsystem_fans ss)) \<longleftrightarrow>
        (\<exists>f. fan_mem st p = Some f \<and> lf_name f = n \<and> subsystem f = a))"
    using ok by (force simp: subsystem_fans_ok_def)
  then show "distinct (shash_nodes P (subsystem_fans ss))"
    and "\<And>n p. (n, p) \<in> set (shash_nodes P (subsystem_fans ss)) \<longleftrightarrow>
        (\<exists>f. fan_mem st' p = Some f \<and> lf_name f = n \<and> subsystem f = a)"
    using links_fan_ex [OF l, where Q = "\<lambda>n b _. n = _ \<and> b = a"] by simp_all
qed

lemma yaml_linked_links:
  assumes l: "same_links st st'" and ok: "yaml_linked P st"
  shows "yaml_linked P st'"
  unfolding yaml_linked_def
proof (intro allI impI)
  fix p f ss assume "fan_mem st' p = Some f \<and> subsys_mem st' (subsystem f) = Some ss"
  with same_links_fan [OF same_links_sym [OF l]] same_links_subsys [OF same_links_sym [OF l]] obtain f0 ss0
    where "fan_mem st p = Some f0" "subsystem f0 = subsystem f"
      and "lf_name f0 = lf_name f" "yaml_fan f0 = yaml_fan f"
      and "subsys_mem st (subsystem f) = Some ss0" "ls_name ss0 = ls_name ss" by metis
  moreover have "yaml_handle st' = yaml_handle st" using l by (simp add: same_links_def)
  ultimately show "yaml_get_fan_info P (yaml_handle st') (ls_name ss) \<noteq> None \<and>
      yaml_fan f \<in> set (yaml_fans P (yaml_handle st') (ls_name ss)) \<and>
      lf_name f = full_name (ls_name ss) (yf_name (yaml_fan f))"
    using ok unfolding yaml_linked_def by metis
qed

lemma fand_inv_links:
  assumes l: "same_links st st'" and inv: "fand_inv P st"
  shows "fand_inv P st'"
proof -
  have eqs: "subsystem_data st' = subsystem_data st" "fan_data st' = fan_data st" "next_addr st' = next_addr st"
    using l by (simp_all add: same_links_def)
  have "subsystems_ok P st'" "fan_table_ok P st'"
    using inv links_subsys_ex [OF l, where Q = "\<lambda>n _. n = _"]
      links_fan_ex [OF l, where Q = "\<lambda>n _ _. n = _"]
    by (simp_all add: fand_inv_def subsystems_ok_def fan_table_ok_def eqs)
  moreover have "addrs_ok st'"
    using inv same_links_subsys [OF same_links_sym [OF l]] same_links_fan [OF same_links_sym [OF l]]
    by (fastforce simp: fand_inv_def addrs_ok_def eqs)
  ultimately show ?thesis
    using subsystem_fans_links [OF l] yaml_linked_links [OF l] inv by (simp add: fand_inv_def)
qed

lemma fand_inv_frame: "hw_frame st st' \<Longrightarrow> fand_inv P st \<Longrightarrow> fand_inv P st'"
  by (blast dest: hw_frame_links intro: fand_inv_links)

text \<open>So every operation of \<open>physfan.h\<close> preserves it.\<close>

context hw_op
begin

lemma inv_post:
  assumes "fand_inv P st" "ok x st"
  shows "post faults (\<lambda>st'. effect x st st' \<and> hw_frame st st' \<and> fand_inv P st') (opn x st)"
  using opn_post [OF assms(2)] by (rule post_mono) (use effect_frame fand_inv_frame assms(1) in blast)

end

section \<open>What the hardware operations need\<close>

lemma inv_speed_ok: "yaml_ok P \<Longrightarrow> subsys_mem st a = Some ss \<Longrightarrow> speed_ok P a st"
  by (simp add: speed_ok_def)

lemma inv_fans_live: "fand_inv P st \<Longrightarrow> subsys_mem st a = Some ss \<Longrightarrow> fans_live P ss st"
  unfolding fand_inv_def subsystem_fans_ok_def fans_live_def by fastforce

lemma inv_leds_ok: "yaml_ok P \<Longrightarrow> fand_inv P st \<Longrightarrow> subsys_mem st a = Some ss \<Longrightarrow> leds_ok P a st"
  unfolding leds_ok_def using inv_fans_live by blast

lemma inv_read_ok:
  assumes "yaml_ok P" "fand_inv P st" "fan_mem st p = Some f"
  shows "read_ok P p st"
proof -
  from assms(2,3) obtain ss where "subsys_mem st (subsystem f) = Some ss"
    by (force simp: fand_inv_def subsystem_fans_ok_def)
  with assms show ?thesis unfolding read_ok_def fand_inv_def yaml_linked_def by blast
qed

lemma inv_node_subsys:
  "fand_inv P st \<Longrightarrow> (n, a) \<in> set (shash_nodes P (subsystem_data st)) \<Longrightarrow>
    \<exists>ss. subsys_mem st a = Some ss \<and> ls_name ss = n"
  unfolding fand_inv_def subsystems_ok_def by blast

lemma inv_subsys_node:
  "fand_inv P st \<Longrightarrow> subsys_mem st a = Some ss \<Longrightarrow>
    (ls_name ss, a) \<in> set (shash_nodes P (subsystem_data st))"
  unfolding fand_inv_def subsystems_ok_def by blast

lemma inv_node_fan:
  "fand_inv P st \<Longrightarrow> subsys_mem st a = Some ss \<Longrightarrow> (n, p) \<in> set (shash_nodes P (subsystem_fans ss)) \<Longrightarrow>
    \<exists>f. fan_mem st p = Some f \<and> lf_name f = n \<and> subsystem f = a"
  unfolding fand_inv_def subsystem_fans_ok_def by blast

lemma inv_fan_data_fan:
  "fand_inv P st \<Longrightarrow> (n, p) \<in> set (shash_nodes P (fan_data st)) \<Longrightarrow>
    \<exists>f. fan_mem st p = Some f \<and> lf_name f = n"
  unfolding fand_inv_def fan_table_ok_def by blast

text \<open>Names identify live blocks.\<close>

lemma inv_subsys_name_inject:
  assumes "fand_inv P st" "subsys_mem st a = Some ss" "subsys_mem st b = Some ss'" "ls_name ss = ls_name ss'"
  shows "a = b"
proof -
  have "(ls_name ss, a) \<in> set (shash_nodes P (subsystem_data st))"
    and "(ls_name ss, b) \<in> set (shash_nodes P (subsystem_data st))"
    using inv_subsys_node [OF assms(1,2)] inv_subsys_node [OF assms(1,3)] assms(4) by auto
  moreover have "distinct (map fst (shash_nodes P (subsystem_data st)))"
    using assms(1) by (simp add: fand_inv_def subsystems_ok_def)
  ultimately show ?thesis by (rule_tac eq_key_imp_eq_value)
qed

section \<open>The elementary steps\<close>

text \<open>Components of the state that the invariant does not mention.\<close>

lemma fand_inv_other [simp]:
  "fand_inv P (st\<lparr>idl := i\<rparr>) = fand_inv P st"
  "fand_inv P (st\<lparr>idl_seqno := n\<rparr>) = fand_inv P st"
  "fand_inv P (st\<lparr>cur_hw_set := b\<rparr>) = fand_inv P st"
  "fand_inv P (st\<lparr>hw := h\<rparr>) = fand_inv P st"
  "fand_inv P (st\<lparr>io := es\<rparr>) = fand_inv P st"
  "fand_inv P (log_io e st) = fand_inv P st"
  "fand_inv P (commit_block P before st) = fand_inv P st"
  by (simp_all add: fand_inv_defs log_io_def commit_block_def)

lemma fand_inv_put_subsys:
  "fand_inv P st \<Longrightarrow> subsys_mem st a = Some ss \<Longrightarrow> subsys_link ss' = subsys_link ss \<Longrightarrow>
    fand_inv P (put_subsys a ss' st)"
  by (rule fand_inv_links [OF same_links_put_subsys])

text \<open>A new subsystem without fans, under a name the table does not have.\<close>

lemma fand_inv_new_subsystem:
  assumes P: "shash_ok P" and inv: "fand_inv P st"
    and fresh: "ls_name ss \<notin> fst ` set (shash_nodes P (subsystem_data st))"
    and empty: "subsystem_fans ss = shash_init P"
  shows "fand_inv P (put_subsys (next_addr st) ss (st\<lparr>next_addr := Suc (next_addr st),
    subsystem_data := shash_add P (subsystem_data st) (ls_name ss) (next_addr st)\<rparr>))"
proof -
  let ?a = "next_addr st"
  have a: "subsys_mem st ?a = None" "fan_mem st ?a = None"
    using inv by (force simp: fand_inv_def addrs_ok_def)+
  then have b: "subsystem f \<noteq> ?a" if "fan_mem st p = Some f" for p f
    using inv that a unfolding fand_inv_def subsystem_fans_ok_def by metis
  show ?thesis
    using inv fresh a b P
    by (auto simp: fand_inv_defs empty distinct_nodes_add less_Suc_eq)
qed

text \<open>Loading another subsystem's description.\<close>

lemma fand_inv_yaml:
  assumes inv: "fand_inv P st"
    and view: "\<And>m. m \<noteq> n \<Longrightarrow> yaml_view P y m = yaml_view P (yaml_handle st) m"
    and none: "\<And>p f ss. fan_mem st p = Some f \<Longrightarrow> subsys_mem st (subsystem f) = Some ss \<Longrightarrow> ls_name ss \<noteq> n"
  shows "fand_inv P (st\<lparr>yaml_handle := y\<rparr>)"
proof -
  have "yaml_linked P (st\<lparr>yaml_handle := y\<rparr>)"
    unfolding yaml_linked_def
  proof (intro allI impI)
    fix p f ss
    assume "fan_mem (st\<lparr>yaml_handle := y\<rparr>) p = Some f \<and>
      subsys_mem (st\<lparr>yaml_handle := y\<rparr>) (subsystem f) = Some ss"
    then have f: "fan_mem st p = Some f" "subsys_mem st (subsystem f) = Some ss" by simp_all
    from view [OF none [OF this]] have "yaml_view P y (ls_name ss) = yaml_view P (yaml_handle st) (ls_name ss)" .
    with yaml_fans_view [OF this] show "yaml_get_fan_info P (yaml_handle (st\<lparr>yaml_handle := y\<rparr>)) (ls_name ss) \<noteq> None \<and>
        yaml_fan f \<in> set (yaml_fans P (yaml_handle (st\<lparr>yaml_handle := y\<rparr>)) (ls_name ss)) \<and>
        lf_name f = full_name (ls_name ss) (yf_name (yaml_fan f))"
      using inv f by (auto simp: yaml_view_def fand_inv_def yaml_linked_def)
  qed
  with inv show ?thesis
    by (simp add: fand_inv_def subsystems_ok_def fan_table_ok_def subsystem_fans_ok_def addrs_ok_def)
qed

text \<open>A new fan of a live subsystem, under a name no other fan has.\<close>

lemma fand_inv_new_fan:
  assumes P: "shash_ok P" and inv: "fand_inv P st"
    and ss: "subsys_mem st a = Some ss"
    and f: "lf_name f = full_name (ls_name ss) (yf_name (yaml_fan f))" "subsystem f = a"
    and g: "yaml_fan f \<in> set (yaml_fans P (yaml_handle st) (ls_name ss))"
    and info: "yaml_get_fan_info P (yaml_handle st) (ls_name ss) \<noteq> None"
    and fresh: "lf_name f \<notin> fst ` set (shash_nodes P (fan_data st))"
    and st': "st' = (put_subsys a (ss\<lparr>subsystem_fans := shash_add P (subsystem_fans ss) (lf_name f) (next_addr st)\<rparr>)
      (put_fan (next_addr st) f (st\<lparr>next_addr := Suc (next_addr st),
        fan_data := shash_add P (fan_data st) (lf_name f) (next_addr st)\<rparr>)))"
  shows "fand_inv P st'"
proof -
  let ?p = "next_addr st"
  have p: "subsys_mem st ?p = None" "fan_mem st ?p = None"
    using inv by (force simp: fand_inv_def addrs_ok_def)+
  have notin: "(n, ?p) \<notin> set (shash_nodes P (subsystem_fans ss))" for n
    using inv_node_fan [OF inv ss] p by force
  have "subsystems_ok P st'" "fan_table_ok P st'" "addrs_ok st'"
    using inv ss p fresh P
    by (auto simp: st' fand_inv_def subsystems_ok_def fan_table_ok_def addrs_ok_def distinct_nodes_add less_Suc_eq)
  moreover have "subsystem_fans_ok P st'"
    using inv ss p P f notin distinct_nodes_add [OF P, of id]
    by (auto simp: st' fand_inv_def subsystem_fans_ok_def)
  moreover have "yaml_linked P st'"
    using inv ss p f g info by (auto simp: st' fand_inv_def yaml_linked_def)
  ultimately show ?thesis by (simp add: fand_inv_def)
qed

end
