(* ===== verification/Subsystems_Sweep.thy ===== *)
theory Subsystems_Sweep
  imports Fand_Inv
begin

text \<open>
  The sweep of \<open>fand_remove_unmarked_subsystems\<close>: it cannot fault, it frees exactly the subsystems that
  are not marked together with their fans, and the tables list exactly what is left. Marking.
\<close>

section \<open>The frame of the table operations\<close>

definition same_env :: "('s, 'y, 'h) fand \<Rightarrow> ('s, 'y, 'h) fand \<Rightarrow> bool" where
  "same_env st st' \<longleftrightarrow> next_addr st' = next_addr st \<and> yaml_handle st' = yaml_handle st \<and>
     hw st' = hw st \<and> idl st' = idl st \<and> idl_seqno st' = idl_seqno st \<and>
     cur_hw_set st' = cur_hw_set st \<and> io st' = io st"

lemma same_env_refl [simp]: "same_env st st"
  by (simp add: same_env_def)

lemma same_env_trans: "same_env st st' \<Longrightarrow> same_env st' st'' \<Longrightarrow> same_env st st''"
  by (simp add: same_env_def)

section \<open>One fan\<close>

definition without_fan :: "addr \<Rightarrow> addr \<Rightarrow> ('s, 'y, 'h) platform \<Rightarrow> 's locl_subsystem \<Rightarrow> string \<times> addr \<Rightarrow>
    ('s, 'y, 'h) fand \<Rightarrow> ('s, 'y, 'h) fand" where
  "without_fan a p P ss nd st =
     (put_subsys a (ss\<lparr>subsystem_fans := shash_delete P (subsystem_fans ss) nd\<rparr>)
        (st\<lparr>fan_data := shash_delete P (fan_data st) nd\<rparr>))\<lparr>fan_mem := (fan_mem st)(p := None)\<rparr>"

lemma remove_fan_eq:
  assumes P: "shash_ok P" and inv: "fand_inv P st" and ss: "subsys_mem st a = Some ss"
    and nd: "(n, p) \<in> set (shash_nodes P (subsystem_fans ss))"
  shows "remove_fan P a (n, p) st = Inr (without_fan a p P ss (n, p) st)"
proof -
  from inv_node_fan [OF inv ss nd] obtain f where f: "fan_mem st p = Some f" "lf_name f = n" by blast
  then have "(n, p) \<in> set (shash_nodes P (fan_data st))"
    using inv by (auto simp: fand_inv_def fan_table_ok_def)
  with inv have "shash_find P (fan_data st) n = Some (n, p)"
    by (intro find_unique [OF P]) (auto simp: fand_inv_def fan_table_ok_def)
  with f ss show ?thesis
    by (simp add: remove_fan_def get_fan_def get_subsys_def without_fan_def Let_def)
qed

lemma without_fan_inv:
  assumes P: "shash_ok P" and inv: "fand_inv P st" and ss: "subsys_mem st a = Some ss"
    and nd: "(n, p) \<in> set (shash_nodes P (subsystem_fans ss))"
  shows "fand_inv P (without_fan a p P ss (n, p) st)"
proof -
  let ?st' = "without_fan a p P ss (n, p) st"
  from inv_node_fan [OF inv ss nd] obtain f
    where f: "fan_mem st p = Some f" "lf_name f = n" "subsystem f = a" by blast
  have tab: "distinct (map fst (shash_nodes P (fan_data st)))" "(n, p) \<in> set (shash_nodes P (fan_data st))"
    using inv f by (auto simp: fand_inv_def fan_table_ok_def)
  have dist: "distinct (map id (shash_nodes P (subsystem_fans ss)))"
    using inv ss by (auto simp: fand_inv_def subsystem_fans_ok_def)
  have others: "(m, p) \<notin> set (shash_nodes P (subsystem_fans ss'))"
    if "subsys_mem st b = Some ss'" "b \<noteq> a" for b ss' m
    using inv_node_fan [OF inv that(1)] f that(2) by force
  have "subsystems_ok P ?st'" "addrs_ok ?st'"
    using inv ss by (auto simp: without_fan_def fand_inv_def subsystems_ok_def addrs_ok_def)
  moreover have "fan_table_ok P ?st'"
    using inv f set_nodes_delete [OF P tab(2,1)] distinct_nodes_delete [OF P tab(2,1)]
    by (auto simp: without_fan_def fand_inv_def fan_table_ok_def)
  moreover have "subsystem_fans_ok P ?st'"
    using inv ss f others set_nodes_delete [OF P nd dist] distinct_nodes_delete [OF P nd dist]
    by (auto simp: without_fan_def fand_inv_def subsystem_fans_ok_def)
  moreover have "yaml_linked P ?st'"
    using inv ss by (auto simp: without_fan_def fand_inv_def yaml_linked_def split: if_splits)
  ultimately show ?thesis by (simp add: fand_inv_def)
qed

section \<open>All fans of a subsystem\<close>

text \<open>The state when the fans of \<open>a\<close> listed in \<open>xs\<close> are still to be removed.\<close>

definition fans_left :: "('s, 'y, 'h) platform \<Rightarrow> addr \<Rightarrow> ('s, 'y, 'h) fand \<Rightarrow> (string \<times> addr) list \<Rightarrow>
    ('s, 'y, 'h) fand \<Rightarrow> bool" where
  "fans_left P a st0 xs st \<longleftrightarrow> fand_inv P st \<and> same_env st0 st \<and>
     subsystem_data st = subsystem_data st0 \<and>
     (\<exists>ss ss0. subsys_mem st0 a = Some ss0 \<and> ls_name ss = ls_name ss0 \<and>
        subsys_mem st = (subsys_mem st0)(a \<mapsto> ss) \<and>
        mset (shash_nodes P (subsystem_fans ss)) = mset xs) \<and>
     (\<forall>p. fan_mem st p = opt_filter (\<lambda>f. subsystem f = a \<longrightarrow> (lf_name f, p) \<in> set xs) (fan_mem st0 p))"

lemma fans_left_step:
  assumes P: "shash_ok P" and left: "fans_left P a st0 (x # xs) st"
  shows "post {} (fans_left P a st0 xs) (remove_fan P a x st)"
proof -
  obtain n p where x: "x = (n, p)" by (cases x)
  from left obtain ss ss0 where inv: "fand_inv P st" and env: "same_env st0 st"
    and ss0: "subsys_mem st0 a = Some ss0" "ls_name ss = ls_name ss0"
    and mem: "subsys_mem st = (subsys_mem st0)(a \<mapsto> ss)"
    and nodes: "mset (shash_nodes P (subsystem_fans ss)) = mset (x # xs)"
    and data: "subsystem_data st = subsystem_data st0"
    and fans: "\<And>q. fan_mem st q = opt_filter (\<lambda>f. subsystem f = a \<longrightarrow> (lf_name f, q) \<in> set (x # xs)) (fan_mem st0 q)"
    unfolding fans_left_def by blast
  have ss: "subsys_mem st a = Some ss" by (simp add: mem)
  have "set (shash_nodes P (subsystem_fans ss)) = set (x # xs)" using nodes by (rule mset_eq_setD)
  then have nd: "(n, p) \<in> set (shash_nodes P (subsystem_fans ss))" by (simp add: x)
  have "distinct (shash_nodes P (subsystem_fans ss))"
    using inv ss by (auto simp: fand_inv_def subsystem_fans_ok_def)
  then have "distinct (x # xs)" using mset_eq_imp_distinct_iff [OF nodes] by blast
  then have notin: "(n, p) \<notin> set xs" by (simp add: x)
  from inv_node_fan [OF inv ss nd] obtain f where f: "fan_mem st p = Some f" "lf_name f = n" "subsystem f = a" by blast
  define ss' where "ss' = ss\<lparr>subsystem_fans := shash_delete P (subsystem_fans ss) (n, p)\<rparr>"
  define st' where "st' = without_fan a p P ss (n, p) st"
  have "mset (shash_nodes P (subsystem_fans ss')) = mset xs"
    using nodes_delete [OF P nd] nodes by (simp add: x ss'_def)
  moreover have "subsys_mem st' = (subsys_mem st0)(a \<mapsto> ss')" "ls_name ss' = ls_name ss0"
    using mem ss0 by (simp_all add: st'_def without_fan_def ss'_def)
  moreover have "fan_mem st' q = opt_filter (\<lambda>f. subsystem f = a \<longrightarrow> (lf_name f, q) \<in> set xs) (fan_mem st0 q)" for q
  proof (cases "q = p")
    case True
    with f fans [of p] notin show ?thesis by (simp add: st'_def without_fan_def)
  next
    case False
    with fans [of q] show ?thesis by (simp add: st'_def without_fan_def x)
  qed
  ultimately have "fans_left P a st0 xs st'"
    using without_fan_inv [OF P inv ss nd] env ss0 data unfolding fans_left_def
    by (simp add: st'_def without_fan_def same_env_def put_subsys_def) blast
  then show ?thesis using remove_fan_eq [OF P inv ss nd] by (simp add: x st'_def)
qed

lemma remove_all_fans:
  assumes P: "shash_ok P" and inv: "fand_inv P st" and ss: "subsys_mem st a = Some ss"
  shows "post {} (fans_left P a st []) (foreach (remove_fan P a) (shash_nodes P (subsystem_fans ss)) st)"
proof (rule post_foreach_todo)
  have "(lf_name f, p) \<in> set (shash_nodes P (subsystem_fans ss))" if "fan_mem st p = Some f" "subsystem f = a" for p f
    using inv ss that by (auto simp: fand_inv_def subsystem_fans_ok_def)
  with inv ss show "fans_left P a st (shash_nodes P (subsystem_fans ss)) st"
    by (auto simp: fans_left_def fun_upd_idem opt_filter_def split: option.splits)
qed (rule fans_left_step [OF P])

text \<open>A subsystem without fans can go.\<close>

lemma fand_inv_drop_subsystem:
  assumes P: "shash_ok P" and inv: "fand_inv P st" and ss: "subsys_mem st a = Some ss"
    and empty: "shash_nodes P (subsystem_fans ss) = []"
  shows "fand_inv P (st\<lparr>subsys_mem := (subsys_mem st)(a := None),
    subsystem_data := shash_delete P (subsystem_data st) (ls_name ss, a)\<rparr>)"
proof -
  let ?st' = "st\<lparr>subsys_mem := (subsys_mem st)(a := None),
    subsystem_data := shash_delete P (subsystem_data st) (ls_name ss, a)\<rparr>"
  have nd: "(ls_name ss, a) \<in> set (shash_nodes P (subsystem_data st))"
    and dist: "distinct (map fst (shash_nodes P (subsystem_data st)))"
    using inv ss by (auto simp: fand_inv_def subsystems_ok_def)
  have none: "subsystem f \<noteq> a" if "fan_mem st p = Some f" for p f
  proof
    assume "subsystem f = a"
    then have "(lf_name f, p) \<in> set (shash_nodes P (subsystem_fans ss))"
      using inv ss that by (auto simp: fand_inv_def subsystem_fans_ok_def)
    with empty show False by simp
  qed
  have "subsystems_ok P ?st'"
    using inv ss set_nodes_delete [OF P nd dist] distinct_nodes_delete [OF P nd dist]
    by (auto simp: fand_inv_def subsystems_ok_def)
  moreover have "fan_table_ok P ?st'" "subsystem_fans_ok P ?st'" "yaml_linked P ?st'" "addrs_ok ?st'"
    using inv none by (auto simp: fand_inv_def fan_table_ok_def subsystem_fans_ok_def yaml_linked_def
        addrs_ok_def split: if_splits)
  ultimately show ?thesis by (simp add: fand_inv_def)
qed

section \<open>The sweep\<close>

definition drop_subsys :: "addr \<Rightarrow> ('s, 'y, 'h) fand \<Rightarrow> ('s, 'y, 'h) fand \<Rightarrow> bool" where
  "drop_subsys a st st' \<longleftrightarrow> subsys_mem st' = (subsys_mem st)(a := None) \<and>
     (\<forall>p. fan_mem st' p = opt_filter (\<lambda>f. subsystem f \<noteq> a) (fan_mem st p))"

lemma sweep_subsystem_post:
  assumes P: "shash_ok P" and inv: "fand_inv P st" and ss: "subsys_mem st a = Some ss"
    and n: "n = ls_name ss"
  shows "post {} (\<lambda>st'. fand_inv P st' \<and> same_env st st' \<and>
      (if marked ss then st' = st else drop_subsys a st st')) (sweep_subsystem P (n, a) st)"
proof (cases "marked ss")
  case True
  with ss inv show ?thesis by (simp add: sweep_subsystem_def get_subsys_def)
next
  case False
  have "post {} (\<lambda>st'. fand_inv P st' \<and> same_env st st' \<and> drop_subsys a st st')
     (and_then (foreach (remove_fan P a) (shash_nodes P (subsystem_fans ss)) st) (\<lambda>st.
        Inr (st\<lparr>subsys_mem := (subsys_mem st)(a := None),
                subsystem_data := shash_delete P (subsystem_data st) (n, a)\<rparr>)))"
    using remove_all_fans [OF P inv ss]
  proof (rule post_and_then)
    fix s assume "fans_left P a st [] s"
    then obtain ss' where inv': "fand_inv P s" and env: "same_env st s"
      and data: "subsystem_data s = subsystem_data st"
      and name: "ls_name ss' = ls_name ss" and mem: "subsys_mem s = (subsys_mem st)(a \<mapsto> ss')"
      and "mset (shash_nodes P (subsystem_fans ss')) = mset []"
      and fans: "\<forall>p. fan_mem s p = opt_filter (\<lambda>f. subsystem f \<noteq> a) (fan_mem st p)"
      using ss unfolding fans_left_def by fastforce
    then have empty: "shash_nodes P (subsystem_fans ss') = []" by simp
    have "subsys_mem s a = Some ss'" by (simp add: mem)
    from fand_inv_drop_subsystem [OF P inv' this empty] env fans
    show "post {} (\<lambda>st'. fand_inv P st' \<and> same_env st st' \<and> drop_subsys a st st')
      (Inr (s\<lparr>subsys_mem := (subsys_mem s)(a := None),
              subsystem_data := shash_delete P (subsystem_data s) (n, a)\<rparr>))"
      by (simp add: drop_subsys_def same_env_def mem name n)
  qed
  with ss False show ?thesis by (simp add: sweep_subsystem_def get_subsys_def)
qed

text \<open>The state when the nodes of \<open>xs\<close> are still to be looked at.\<close>

definition swept :: "('s, 'y, 'h) platform \<Rightarrow> ('s, 'y, 'h) fand \<Rightarrow> (string \<times> addr) list \<Rightarrow>
    ('s, 'y, 'h) fand \<Rightarrow> bool" where
  "swept P st0 xs st \<longleftrightarrow> fand_inv P st \<and> same_env st0 st \<and>
     (\<forall>a. subsys_mem st a = opt_filter (\<lambda>ss. marked ss \<or> (ls_name ss, a) \<in> set xs) (subsys_mem st0 a)) \<and>
     (\<forall>p. fan_mem st p = opt_filter (\<lambda>f. subsys_mem st (subsystem f) \<noteq> None) (fan_mem st0 p))"

lemma swept_step:
  assumes P: "shash_ok P" and dist: "distinct (map snd (x # xs))"
    and x: "subsys_mem st0 (snd x) = Some ss" "fst x = ls_name ss"
    and sw: "swept P st0 (x # xs) st"
  shows "post {} (swept P st0 xs) (sweep_subsystem P x st)"
proof -
  obtain n a where xx: "x = (n, a)" by (cases x)
  have inv: "fand_inv P st" and env: "same_env st0 st" using sw by (simp_all add: swept_def)
  have ss: "subsys_mem st a = Some ss" using sw x xx by (simp add: swept_def)
  have notin: "(m, a) \<notin> set xs" for m using dist xx by force
  from sweep_subsystem_post [OF P inv ss] x(2) xx
  have "post {} (\<lambda>st'. fand_inv P st' \<and> same_env st st' \<and>
      (if marked ss then st' = st else drop_subsys a st st')) (sweep_subsystem P x st)" by simp
  then show ?thesis
  proof (rule post_mono)
    fix st' assume st': "fand_inv P st' \<and> same_env st st' \<and>
      (if marked ss then st' = st else drop_subsys a st st')"
    then have "same_env st0 st'" using env by (blast intro: same_env_trans)
    moreover have "subsys_mem st' b = opt_filter (\<lambda>ss. marked ss \<or> (ls_name ss, b) \<in> set xs) (subsys_mem st0 b)" for b
    proof (cases "b = a")
      case True
      with st' ss x xx notin show ?thesis by (auto simp: drop_subsys_def split: if_splits)
    next
      case False
      then have "subsys_mem st' b = subsys_mem st b" using st' by (auto simp: drop_subsys_def split: if_splits)
      with sw False xx show ?thesis by (simp add: swept_def)
    qed
    moreover have "fan_mem st' p = opt_filter (\<lambda>f. subsys_mem st' (subsystem f) \<noteq> None) (fan_mem st0 p)" for p
    proof (cases "marked ss")
      case True
      with sw st' show ?thesis by (simp add: swept_def)
    next
      case False
      with st' have d: "drop_subsys a st st'" by simp
      with sw have "fan_mem st' p = opt_filter (\<lambda>f. subsys_mem st (subsystem f) \<noteq> None \<and> subsystem f \<noteq> a) (fan_mem st0 p)"
        by (simp add: swept_def drop_subsys_def opt_filter_filter)
      also have "\<dots> = opt_filter (\<lambda>f. subsys_mem st' (subsystem f) \<noteq> None) (fan_mem st0 p)"
        using d by (intro opt_filter_cong) (auto simp: drop_subsys_def)
      finally show ?thesis .
    qed
    ultimately show "swept P st0 xs st'" using st' by (simp add: swept_def)
  qed
qed

lemma fand_inv_nodes:
  assumes "fand_inv P st"
  shows "distinct (map fst (shash_nodes P (subsystem_data st)))"
    and "distinct (map snd (shash_nodes P (subsystem_data st)))"
proof -
  show 1: "distinct (map fst (shash_nodes P (subsystem_data st)))"
    using assms by (simp add: fand_inv_def subsystems_ok_def)
  have "inj_on snd (set (shash_nodes P (subsystem_data st)))"
  proof (rule inj_onI)
    fix x y :: "string \<times> addr"
    assume xy: "x \<in> set (shash_nodes P (subsystem_data st))" "y \<in> set (shash_nodes P (subsystem_data st))"
      and eq: "snd x = snd y"
    obtain n m a where x: "x = (n, a)" "y = (m, a)" using eq by (cases x; cases y) auto
    with xy inv_node_subsys [OF assms, of n a] inv_node_subsys [OF assms, of m a] show "x = y" by auto
  qed
  with 1 show "distinct (map snd (shash_nodes P (subsystem_data st)))"
    by (simp add: distinct_map)
qed

lemma sweep_post:
  assumes P: "shash_ok P" and inv: "fand_inv P st"
  shows "post {} (swept P st []) (fand_remove_unmarked_subsystems P st)"
  unfolding fand_remove_unmarked_subsystems_def
proof (rule post_foreach_todo)
  have "opt_filter (\<lambda>ss. marked ss \<or> (ls_name ss, a) \<in> set (shash_nodes P (subsystem_data st))) (subsys_mem st a)
      = subsys_mem st a" for a
    using inv_subsys_node [OF inv, of a] by (cases "subsys_mem st a") auto
  moreover have "opt_filter (\<lambda>f. subsys_mem st (subsystem f) \<noteq> None) (fan_mem st p) = fan_mem st p" for p
    using inv by (cases "fan_mem st p") (auto simp: fand_inv_def subsystem_fans_ok_def)
  ultimately show "swept P st (shash_nodes P (subsystem_data st)) st"
    using inv by (simp add: swept_def)
next
  fix x ys s
  assume "\<exists>zs. shash_nodes P (subsystem_data st) = zs @ x # ys" and s: "swept P st (x # ys) s"
  then obtain zs where nodes: "shash_nodes P (subsystem_data st) = zs @ x # ys" by blast
  with fand_inv_nodes(2) [OF inv] have dist: "distinct (map snd (x # ys))" by simp
  from nodes have "(fst x, snd x) \<in> set (shash_nodes P (subsystem_data st))" by simp
  from inv_node_subsys [OF inv this] obtain ss where "subsys_mem st (snd x) = Some ss" "fst x = ls_name ss" by metis
  from swept_step [OF P dist this s] show "post {} (swept P st ys) (sweep_subsystem P x s)" .
qed

section \<open>Unmarking\<close>

definition unmarked :: "('s, 'y, 'h) fand \<Rightarrow> addr set \<Rightarrow> ('s, 'y, 'h) fand \<Rightarrow> bool" where
  "unmarked st0 todo st \<longleftrightarrow> same_links st0 st \<and> same_env st0 st \<and> fan_mem st = fan_mem st0 \<and>
     (\<forall>a. subsys_mem st a = (if a \<in> todo then subsys_mem st0 a
        else map_option (\<lambda>ss. ss\<lparr>marked := False\<rparr>) (subsys_mem st0 a)))"

lemma unmark_post:
  assumes inv: "fand_inv P st"
  shows "post {} (unmarked st {}) (fand_unmark_subsystems P st)"
proof -
  have "post {} (unmarked st (snd ` set ([] :: (string \<times> addr) list)))
      (foreach unmark_subsystem (shash_nodes P (subsystem_data st)) st)"
  proof (rule post_foreach_todo [where I = "\<lambda>xs. unmarked st (snd ` set xs)"])
    have "map_option (\<lambda>ss. ss\<lparr>marked := False\<rparr>) (subsys_mem st a) = subsys_mem st a"
      if "a \<notin> snd ` set (shash_nodes P (subsystem_data st))" for a
      using that inv_subsys_node [OF inv, of a] by (cases "subsys_mem st a") (auto simp: image_iff)
    then show "unmarked st (snd ` set (shash_nodes P (subsystem_data st))) st"
      by (auto simp: unmarked_def)
  next
    fix x ys s
    assume "\<exists>zs. shash_nodes P (subsystem_data st) = zs @ x # ys" and s: "unmarked st (snd ` set (x # ys)) s"
    then obtain zs where nodes: "shash_nodes P (subsystem_data st) = zs @ x # ys" by blast
    then have "snd x \<notin> snd ` set ys" using fand_inv_nodes(2) [OF inv] by simp
    moreover have "(fst x, snd x) \<in> set (shash_nodes P (subsystem_data st))" using nodes by simp
    from inv_node_subsys [OF inv this] obtain ss where ss: "subsys_mem st (snd x) = Some ss" by blast
    moreover from this s have "subsys_mem s (snd x) = Some ss" by (simp add: unmarked_def)
    moreover from this have "same_links s (put_subsys (snd x) (ss\<lparr>marked := False\<rparr>) s)"
      by (rule same_links_put_subsys) (simp add: subsys_link_def)
    ultimately show "post {} (unmarked st (snd ` set ys)) (unmark_subsystem x s)"
      using s by (auto simp: unmark_subsystem_def get_subsys_def unmarked_def same_env_def put_subsys_def
          intro: same_links_trans)
  qed
  then show ?thesis by (simp add: fand_unmark_subsystems_def)
qed

section \<open>Properties\<close>

text \<open>
  C8: the sweep never faults: it does not touch freed memory and finds every node it deletes. Afterwards
  exactly the marked subsystems are left, unchanged, with exactly their fans, unchanged; everything else
  is freed and gone from both tables.
\<close>

theorem sweep_exact:
  assumes "shash_ok P" "fand_inv P st"
  shows "\<exists>st'. fand_remove_unmarked_subsystems P st = Inr st' \<and> fand_inv P st' \<and>
    (\<forall>a. subsys_mem st' a = opt_filter marked (subsys_mem st a)) \<and>
    (\<forall>p. fan_mem st' p = opt_filter (\<lambda>f. map_option marked (subsys_mem st (subsystem f)) = Some True) (fan_mem st p)) \<and>
    io st' = io st \<and> idl st' = idl st"
proof -
  from post_total [OF sweep_post [OF assms]] obtain st'
    where st': "fand_remove_unmarked_subsystems P st = Inr st'" and s: "swept P st [] st'" by blast
  have subs: "subsys_mem st' a = opt_filter marked (subsys_mem st a)" for a
    using s by (simp add: swept_def)
  have "fan_mem st' p = opt_filter (\<lambda>f. map_option marked (subsys_mem st (subsystem f)) = Some True) (fan_mem st p)" for p
  proof -
    have "fan_mem st' p = opt_filter (\<lambda>f. subsys_mem st' (subsystem f) \<noteq> None) (fan_mem st p)"
      using s by (simp add: swept_def)
    also have "\<dots> = opt_filter (\<lambda>f. map_option marked (subsys_mem st (subsystem f)) = Some True) (fan_mem st p)"
      by (rule opt_filter_cong) (auto simp: subs)
    finally show ?thesis .
  qed
  with st' s subs show ?thesis by (simp add: swept_def same_env_def)
qed

end
