(* ===== verification/Subsystems_Add.thy ===== *)
theory Subsystems_Add
  imports Subsystems_Sweep
begin

text \<open>
  What \<open>add_subsystem\<close> and \<open>get_subsystem\<close> establish: no fault, the invariant, one new subsystem with a
  fan per fan of the hardware description, every other block untouched, and on a failure of the
  description nothing done to the database or the bus.
\<close>

section \<open>Loading the description\<close>

lemma load_description_post:
  assumes y: "yaml_ok P"
  shows "\<exists>ok h. load_description P cfg st = (ok, st\<lparr>yaml_handle := h\<rparr>) \<and>
    (\<forall>m. m \<noteq> os_name cfg \<longrightarrow> yaml_view P h m = yaml_view P (yaml_handle st) m)"
proof -
  obtain y1 r1 where 1: "yaml_add_subsystem P (yaml_handle st) (os_name cfg) (the (os_hw_desc_dir cfg)) = (y1, r1)"
    by fastforce
  obtain y2 r2 where 2: "yaml_parse_devices P y1 (os_name cfg) = (y2, r2)" by fastforce
  obtain y3 r3 where 3: "yaml_parse_fans P y2 (os_name cfg) = (y3, r3)" by fastforce
  have v: "yaml_view P y1 m = yaml_view P (yaml_handle st) m"
    "yaml_view P y2 m = yaml_view P y1 m" "yaml_view P y3 m = yaml_view P y2 m"
    if "m \<noteq> os_name cfg" for m
    using y that 1 2 3 unfolding yaml_ok_def by (metis fst_conv)+
  show ?thesis
  proof (cases "os_hw_desc_dir cfg")
    case None
    then show ?thesis
      by (intro exI [of _ False] exI [of _ "yaml_handle st"]) (simp add: load_description_def)
  next
    case (Some dir)
    consider "dir = []" | "dir \<noteq> []" "r1 \<noteq> 0" | "dir \<noteq> []" "r1 = 0" "r2 \<noteq> 0" | "dir \<noteq> []" "r1 = 0" "r2 = 0" by blast
    then show ?thesis
    proof cases
      case 1
      then show ?thesis using Some
        by (intro exI [of _ False] exI [of _ "yaml_handle st"]) (simp add: load_description_def)
    qed (use Some 1 2 3 v in \<open>auto simp: load_description_def Let_def\<close>)
  qed
qed

text \<open>
  A row whose description can be loaded, whatever has been loaded before: the directory is given, no
  library call fails, and the description has fan information and a FRU.
\<close>

definition loadable :: "('s, 'y, 'h) platform \<Rightarrow> ovsrec_subsystem \<Rightarrow> bool" where
  "loadable P cfg \<longleftrightarrow> (\<exists>dir. os_hw_desc_dir cfg = Some dir \<and> dir \<noteq> [] \<and>
     (\<forall>y. let (y1, rc1) = yaml_add_subsystem P y (os_name cfg) dir;
              (y2, rc2) = yaml_parse_devices P y1 (os_name cfg);
              (y3, rc3) = yaml_parse_fans P y2 (os_name cfg)
          in rc1 = 0 \<and> rc2 = 0 \<and> rc3 = 0 \<and> yaml_get_fan_info P y3 (os_name cfg) \<noteq> None \<and>
            0 < yaml_get_fan_fru_count P y3 (os_name cfg)))"

lemma loadable_loads:
  assumes "loadable P cfg" "load_description P cfg st = (ok, st\<lparr>yaml_handle := y\<rparr>)"
  shows "ok \<and> yaml_get_fan_info P y (os_name cfg) \<noteq> None \<and> 0 < yaml_get_fan_fru_count P y (os_name cfg)"
proof -
  from assms(1) obtain dir where dir: "os_hw_desc_dir cfg = Some dir" "dir \<noteq> []"
    and all: "\<And>y. let (y1, rc1) = yaml_add_subsystem P y (os_name cfg) dir;
              (y2, rc2) = yaml_parse_devices P y1 (os_name cfg);
              (y3, rc3) = yaml_parse_fans P y2 (os_name cfg)
          in rc1 = 0 \<and> rc2 = 0 \<and> rc3 = 0 \<and> yaml_get_fan_info P y3 (os_name cfg) \<noteq> None \<and>
            0 < yaml_get_fan_fru_count P y3 (os_name cfg)"
    unfolding loadable_def by blast
  obtain y1 r1 where 1: "yaml_add_subsystem P (yaml_handle st) (os_name cfg) dir = (y1, r1)" by fastforce
  obtain y2 r2 where 2: "yaml_parse_devices P y1 (os_name cfg) = (y2, r2)" by fastforce
  obtain y3 r3 where 3: "yaml_parse_fans P y2 (os_name cfg) = (y3, r3)" by fastforce
  from all [of "yaml_handle st"] have r: "r1 = 0" "r2 = 0" "r3 = 0"
    and y3: "yaml_get_fan_info P y3 (os_name cfg) \<noteq> None" "0 < yaml_get_fan_fru_count P y3 (os_name cfg)"
    by (simp_all add: 1 2 3)
  from assms(2) have "ok" "st\<lparr>yaml_handle := y3\<rparr> = st\<lparr>yaml_handle := y\<rparr>"
    by (simp_all add: load_description_def dir 1 2 3 r)
  then have "yaml_handle (st\<lparr>yaml_handle := y3\<rparr>) = yaml_handle (st\<lparr>yaml_handle := y\<rparr>)" by simp
  with \<open>ok\<close> y3 show ?thesis by simp
qed

section \<open>Counting\<close>

lemma count_fans_eq:
  assumes "\<forall>i < n. yaml_get_fan_fru P y name i \<noteq> None"
  shows "count_fans P y name n = Inr (length (concat (map (\<lambda>i. case yaml_get_fan_fru P y name i of
    None \<Rightarrow> [] | Some fru \<Rightarrow> fru_fans fru) [0 ..< n])))"
proof -
  have "foreach (\<lambda>i total. and_then (deref NullDeref (yaml_get_fan_fru P y name i)) (\<lambda>fru.
       Inr (total + length (fru_fans fru)))) is t = Inr (t + length (concat (map (\<lambda>i.
         case yaml_get_fan_fru P y name i of None \<Rightarrow> [] | Some fru \<Rightarrow> fru_fans fru) is)))"
    if "\<forall>i \<in> set is. i < n" for "is" t
    using that
  proof (induction "is" arbitrary: t)
    case (Cons i "is")
    then have "yaml_get_fan_fru P y name i \<noteq> None" using assms by simp
    then show ?case using Cons by (auto simp: add.assoc)
  qed simp
  from this [of "[0 ..< n]" 0] show ?thesis by (simp add: count_fans_def)
qed

lemma count_fans_yaml:
  assumes "yaml_ok P"
  shows "count_fans P y name (unat (yaml_get_fan_fru_count P y name)) = Inr (length (yaml_fans P y name))"
  using count_fans_eq [of "unat (yaml_get_fan_fru_count P y name)" P y name] yaml_fru_exists [OF assms]
  by (fastforce simp: yaml_fans_def)

text \<open>The nested loop over FRUs and their fans is a loop over all fans.\<close>

lemma add_fru_fans_concat:
  assumes "yaml_ok P"
  shows "foreach (add_fru_fans P y name a) [0 ..< unat (yaml_get_fan_fru_count P y name)] s =
    foreach (add_fan P name a) (yaml_fans P y name) s"
proof -
  have "foreach (add_fru_fans P y name a) is s = foreach (add_fan P name a) (concat (map (\<lambda>i.
      case yaml_get_fan_fru P y name i of None \<Rightarrow> [] | Some fru \<Rightarrow> fru_fans fru) is)) s"
    if "\<forall>i \<in> set is. i < unat (yaml_get_fan_fru_count P y name)" for "is"
    using that
  proof (induction "is" arbitrary: s)
    case (Cons i "is")
    then obtain fru where fru: "yaml_get_fan_fru P y name i = Some fru"
      using yaml_fru_exists [OF assms] by fastforce
    with Cons have "foreach (add_fru_fans P y name a) (i # is) s =
        and_then (foreach (add_fan P name a) (fru_fans fru) s) (foreach (add_fru_fans P y name a) is)"
      by (simp add: add_fru_fans_def)
    also have "\<dots> = and_then (foreach (add_fan P name a) (fru_fans fru) s) (foreach (add_fan P name a)
        (concat (map (\<lambda>i. case yaml_get_fan_fru P y name i of None \<Rightarrow> [] | Some fru \<Rightarrow> fru_fans fru) is)))"
      using Cons by (cases "foreach (add_fan P name a) (fru_fans fru) s") simp_all
    finally show ?case by (simp add: fru foreach_append)
  qed simp
  then show ?thesis by (simp add: yaml_fans_def)
qed

section \<open>Adding the fans\<close>

text \<open>What adding fans of the given names does to the replica: the uuids of their rows, in order.\<close>

primrec init_rows :: "('s, 'y, 'h) platform \<Rightarrow> string list \<Rightarrow> ovsdb_idl \<Rightarrow> nat list \<times> ovsdb_idl" where
  "init_rows P [] i = ([], i)"
| "init_rows P (n # ns) i =
     (let (u, i) = fan_row_init P n i; (us, i) = init_rows P ns i in (u # us, i))"

lemma length_init_rows [simp]: "length (fst (init_rows P ns i)) = length ns"
  by (induction ns arbitrary: i) (simp_all split: prod.split, metis fst_conv)

text \<open>The transaction of \<open>add_subsystem\<close>, as it is staged.\<close>

definition full_names :: "string \<Rightarrow> YamlFan list \<Rightarrow> string list" where
  "full_names name fans = map (\<lambda>g. full_name name (yf_name g)) fans"

lemma set_full_names: "set (full_names name fans) = (\<lambda>g. full_name name (yf_name g)) ` set fans"
  by (simp add: full_names_def)

definition fan_rows_staged :: "('s, 'y, 'h) platform \<Rightarrow> ovsrec_subsystem \<Rightarrow> YamlFan list \<Rightarrow> ovsdb_idl \<Rightarrow>
    ovsdb_idl" where
  "fan_rows_staged P cfg fans i =
     (let (arr, i) = init_rows P (full_names (os_name cfg) fans) i in set_subsystem_fans (os_uuid cfg) arr i)"

text \<open>
  The state of the loop when the fans \<open>gs\<close> of subsystem \<open>a\<close> are still to be added: their full names
  are free, the array holds one row per fan added so far, and older blocks are as they were.
\<close>

definition fans_todo :: "('s, 'y, 'h) platform \<Rightarrow> string \<Rightarrow> addr \<Rightarrow> ('s, 'y, 'h) fand \<Rightarrow> YamlFan list \<Rightarrow>
    nat list \<times> ('s, 'y, 'h) fand \<Rightarrow> bool" where
  "fans_todo P name a st0 gs = (\<lambda>(arr, st). fand_inv P st \<and>
     distinct (map yf_name gs) \<and>
     (\<forall>g \<in> set gs. g \<in> set (yaml_fans P (yaml_handle st0) name) \<and>
        full_name name (yf_name g) \<notin> fst ` set (shash_nodes P (fan_data st))) \<and>
     init_rows P (full_names name (yaml_fans P (yaml_handle st0) name)) (idl st0) =
       (let (us, i) = init_rows P (full_names name gs) (idl st) in (arr @ us, i)) \<and>
     yaml_handle st = yaml_handle st0 \<and> subsystem_data st = subsystem_data st0 \<and>
     idl_seqno st = idl_seqno st0 \<and> cur_hw_set st = cur_hw_set st0 \<and>
     hw st = hw st0 \<and> io st = io st0 \<and>
     (\<forall>b. b \<noteq> a \<longrightarrow> subsys_mem st b = subsys_mem st0 b) \<and>
     (\<forall>p f. fan_mem st0 p = Some f \<longrightarrow> fan_mem st p = Some f) \<and>
     (\<forall>p f. fan_mem st p = Some f \<and> fan_mem st0 p = None \<longrightarrow>
        (\<exists>g. f = new_fan P p (full_name name (yf_name g)) a g)) \<and>
     (\<exists>t ss0. subsys_mem st0 a = Some ss0 \<and> subsys_mem st a = Some (ss0\<lparr>subsystem_fans := t\<rparr>) \<and>
        ls_name ss0 = name \<and>
        fst ` set (shash_nodes P t) =
          fst ` set (shash_nodes P (subsystem_fans ss0)) \<union>
          (\<lambda>g. full_name name (yf_name g)) ` (set (yaml_fans P (yaml_handle st0) name) - set gs)))"

lemma full_name_inject [simp]: "full_name n x = full_name n y \<longleftrightarrow> x = y"
  by (simp add: full_name_def)

lemma add_fan_result:
  assumes ss: "subsys_mem st a = Some ss"
  shows "\<exists>u i. fan_row_init P (full_name name (yf_name g)) (idl st) = (u, i) \<and>
    add_fan P name a g (arr, st) = Inr (arr @ [u],
    (put_subsys a (ss\<lparr>subsystem_fans := shash_add P (subsystem_fans ss) (full_name name (yf_name g)) (next_addr st)\<rparr>)
      (put_fan (next_addr st) (new_fan P (next_addr st) (full_name name (yf_name g)) a g)
        (st\<lparr>next_addr := Suc (next_addr st),
            fan_data := shash_add P (fan_data st) (full_name name (yf_name g)) (next_addr st)\<rparr>)))\<lparr>idl := i\<rparr>)"
proof -
  obtain u i where "fan_row_init P (full_name name (yf_name g)) (idl st) = (u, i)" by fastforce
  then show ?thesis
    by (intro exI [of _ u] exI [of _ i])
      (simp add: add_fan_def get_subsys_def ss Let_def, simp add: put_subsys_def put_fan_def)
qed

lemma new_fan_simps [simp]:
  "lf_name (new_fan P p n a g) = n" "subsystem (new_fan P p n a g) = a" "yaml_fan (new_fan P p n a g) = g"
  by (simp_all add: new_fan_def split: prod.split)

text \<open>The state after one more fan, up to the replica.\<close>

definition fan_placed :: "('s, 'y, 'h) platform \<Rightarrow> string \<Rightarrow> addr \<Rightarrow> YamlFan \<Rightarrow> 's locl_subsystem \<Rightarrow> 's \<Rightarrow>
    ('s, 'y, 'h) fand \<Rightarrow> ('s, 'y, 'h) fand" where
  "fan_placed P name a g ss t st = (let n = full_name name (yf_name g); p = next_addr st in
     put_subsys a (ss\<lparr>subsystem_fans := shash_add P t n p\<rparr>) (put_fan p (new_fan P p n a g)
       (st\<lparr>next_addr := Suc p, fan_data := shash_add P (fan_data st) n p\<rparr>)))"

lemma fan_placed_simps [simp]:
  "subsys_mem (fan_placed P name a g ss t st) =
     (subsys_mem st)(a \<mapsto> ss\<lparr>subsystem_fans := shash_add P t (full_name name (yf_name g)) (next_addr st)\<rparr>)"
  "fan_mem (fan_placed P name a g ss t st) =
     (fan_mem st)(next_addr st \<mapsto> new_fan P (next_addr st) (full_name name (yf_name g)) a g)"
  "fan_data (fan_placed P name a g ss t st) = shash_add P (fan_data st) (full_name name (yf_name g)) (next_addr st)"
  by (simp_all add: fan_placed_def Let_def put_subsys_def put_fan_def)

lemma add_fan_placed:
  assumes "subsys_mem st a = Some (ss\<lparr>subsystem_fans := t\<rparr>)" "ls_name ss = name"
  shows "\<exists>u i. fan_row_init P (full_name name (yf_name g)) (idl st) = (u, i) \<and>
    add_fan P name a g (arr, st) = Inr (arr @ [u], (fan_placed P name a g ss t st)\<lparr>idl := i\<rparr>)"
  using add_fan_result [OF assms(1)] unfolding fan_placed_def Let_def by fastforce

lemma fans_todo_step:
  assumes P: "shash_ok P" and info: "yaml_get_fan_info P (yaml_handle st0) name \<noteq> None"
    and todo: "fans_todo P name a st0 (g # gs) s"
  shows "post {} (fans_todo P name a st0 gs) (add_fan P name a g s)"
proof -
  obtain arr st where s: "s = (arr, st)" by (cases s)
  let ?all = "yaml_fans P (yaml_handle st0) name" and ?n = "full_name name (yf_name g)"
  from todo obtain t ss0 where inv: "fand_inv P st" and dist: "distinct (map yf_name (g # gs))"
    and free: "\<forall>h \<in> set (g # gs). h \<in> set ?all \<and>
      full_name name (yf_name h) \<notin> fst ` set (shash_nodes P (fan_data st))"
    and y: "yaml_handle st = yaml_handle st0"
    and ss0: "subsys_mem st0 a = Some ss0" "ls_name ss0 = name"
    and ss: "subsys_mem st a = Some (ss0\<lparr>subsystem_fans := t\<rparr>)"
    and names: "fst ` set (shash_nodes P t) = fst ` set (shash_nodes P (subsystem_fans ss0)) \<union>
      (\<lambda>g. full_name name (yf_name g)) ` (set ?all - set (g # gs))"
    unfolding fans_todo_def s prod.case by (elim conjE exE) (rule that)
  define st1 where "st1 = fan_placed P name a g ss0 t st"
  from add_fan_placed [OF ss ss0(2)] obtain u i
    where row: "fan_row_init P ?n (idl st) = (u, i)"
      and eq: "add_fan P name a g (arr, st) = Inr (arr @ [u], st1\<lparr>idl := i\<rparr>)" unfolding st1_def by blast
  have "fand_inv P st1"
    unfolding st1_def fan_placed_def Let_def
    by (rule fand_inv_new_fan [OF P inv ss, where f = "new_fan P (next_addr st) ?n a g"])
      (use free info ss0 y in simp_all)
  then have inv1: "fand_inv P (st1\<lparr>idl := i\<rparr>)" by simp
  have fresh: "fan_mem st (next_addr st) = None"
    using inv by (force simp: fand_inv_def addrs_ok_def)
  have rest: "set ?all - set gs = insert g (set ?all - set (g # gs))" using free dist by force
  have "yf_name h \<noteq> yf_name g" if "h \<in> set gs" for h
    using that dist by (metis distinct.simps(2) image_eqI list.simps(9) set_map)
  then have todo': "\<forall>h \<in> set gs. h \<in> set ?all \<and>
      full_name name (yf_name h) \<notin> fst ` set (shash_nodes P (fan_data st1))"
    using free P by (simp add: st1_def)
  have "\<exists>t ss0. subsys_mem st0 a = Some ss0 \<and> subsys_mem st1 a = Some (ss0\<lparr>subsystem_fans := t\<rparr>) \<and>
      ls_name ss0 = name \<and> fst ` set (shash_nodes P t) = fst ` set (shash_nodes P (subsystem_fans ss0)) \<union>
        (\<lambda>g. full_name name (yf_name g)) ` (set ?all - set gs)"
    using ss0 names P
    by (intro exI [of _ "shash_add P t ?n (next_addr st)"] exI [of _ ss0]) (simp add: st1_def rest)
  moreover have "\<forall>p f. fan_mem st0 p = Some f \<longrightarrow> fan_mem st1 p = Some f"
    and "\<forall>p f. fan_mem st1 p = Some f \<and> fan_mem st0 p = None \<longrightarrow>
      (\<exists>g. f = new_fan P p (full_name name (yf_name g)) a g)"
    using todo fresh by (auto simp: fans_todo_def s st1_def)
  moreover have "init_rows P (full_names name ?all) (idl st0) =
      (let (us, i) = init_rows P (full_names name gs) i in ((arr @ [u]) @ us, i))"
    using todo row by (simp add: fans_todo_def s full_names_def split_beta)
  ultimately have "fans_todo P name a st0 gs (arr @ [u], st1\<lparr>idl := i\<rparr>)"
    using inv1 dist todo' todo
    by (auto simp: fans_todo_def s st1_def fan_placed_def Let_def put_subsys_def put_fan_def)
  with eq show ?thesis by (simp add: s)
qed

text \<open>The full names of a fanless subsystem are not in use.\<close>

lemma full_names_free:
  assumes names: "fan_names_ok P" and inv: "fand_inv P st" and ss: "subsys_mem st a = Some ss"
    and empty: "shash_nodes P (subsystem_fans ss) = []"
    and g: "g \<in> set (yaml_fans P (yaml_handle st) (ls_name ss))"
  shows "full_name (ls_name ss) (yf_name g) \<notin> fst ` set (shash_nodes P (fan_data st))"
proof
  assume "full_name (ls_name ss) (yf_name g) \<in> fst ` set (shash_nodes P (fan_data st))"
  then obtain p where "(full_name (ls_name ss) (yf_name g), p) \<in> set (shash_nodes P (fan_data st))" by force
  from inv_fan_data_fan [OF inv this] obtain f
    where f: "fan_mem st p = Some f" "lf_name f = full_name (ls_name ss) (yf_name g)" by blast
  with inv obtain ss' where ss': "subsys_mem st (subsystem f) = Some ss'"
    by (force simp: fand_inv_def subsystem_fans_ok_def)
  have "yaml_fan f \<in> set (yaml_fans P (yaml_handle st) (ls_name ss'))"
    and "lf_name f = full_name (ls_name ss') (yf_name (yaml_fan f))"
    using inv f(1) ss' unfolding fand_inv_def yaml_linked_def by blast+
  moreover have "ls_name ss' \<noteq> ls_name ss"
  proof
    assume "ls_name ss' = ls_name ss"
    then have "subsystem f = a" by (rule inv_subsys_name_inject [OF inv ss' ss])
    then have "(lf_name f, p) \<in> set (shash_nodes P (subsystem_fans ss))"
      using inv f(1) ss by (auto simp: fand_inv_def subsystem_fans_ok_def)
    with empty show False by simp
  qed
  ultimately show False using names g f(2) unfolding fan_names_ok_def by metis
qed

section \<open>The whole operation\<close>

definition fans_added :: "('s, 'y, 'h) platform \<Rightarrow> ovsrec_subsystem \<Rightarrow> addr \<Rightarrow> 's locl_subsystem \<Rightarrow>
    ('s, 'y, 'h) fand \<Rightarrow> ('s, 'y, 'h) fand \<Rightarrow> bool" where
  "fans_added P cfg a ss st st' \<longleftrightarrow>
     (let fans = yaml_fans P (yaml_handle st) (os_name cfg) in
      fand_inv P st' \<and> yaml_handle st' = yaml_handle st \<and> subsystem_data st' = subsystem_data st \<and>
      idl_seqno st' = idl_seqno st \<and> cur_hw_set st' = cur_hw_set st \<and>
      (\<forall>b. b \<noteq> a \<longrightarrow> subsys_mem st' b = subsys_mem st b) \<and>
      (\<forall>p f. fan_mem st p = Some f \<longrightarrow> fan_mem st' p = Some f) \<and>
      (\<forall>p f. fan_mem st' p = Some f \<and> fan_mem st p = None \<longrightarrow>
         (\<exists>g. f = new_fan P p (full_name (os_name cfg) (yf_name g)) a g)) \<and>
      (\<exists>t. subsys_mem st' a = Some (ss\<lparr>valid := True, subsystem_fans := t, speed := fand_choose_speed ss\<rparr>) \<and>
         fst ` set (shash_nodes P t) = (\<lambda>g. full_name (os_name cfg) (yf_name g)) ` set fans) \<and>
      idl st' = txn_commit_block P (idl st) (fan_rows_staged P cfg fans (idl st)) \<and>
      io st' = io st @ [FanCountEvent (os_name cfg) (length fans), CommitEvent] @
        speed_trace P (yaml_handle st) ss)"

lemma add_fans_loop:
  assumes P: "shash_ok P" "fan_names_ok P"
    and inv: "fand_inv P st" and ss: "subsys_mem st a = Some ss" "ls_name ss = name"
    and empty: "shash_nodes P (subsystem_fans ss) = []"
    and info: "yaml_get_fan_info P (yaml_handle st) name \<noteq> None"
  obtains arr st' t where
    "foreach (add_fan P name a) (yaml_fans P (yaml_handle st) name) ([], st) = Inr (arr, st')"
    "fans_todo P name a st [] (arr, st')" "subsys_mem st' a = Some (ss\<lparr>subsystem_fans := t\<rparr>)"
    "fst ` set (shash_nodes P t) = (\<lambda>g. full_name name (yf_name g)) ` set (yaml_fans P (yaml_handle st) name)"
proof -
  let ?fans = "yaml_fans P (yaml_handle st) name"
  have free: "full_name name (yf_name g) \<notin> fst ` set (shash_nodes P (fan_data st))" if "g \<in> set ?fans" for g
    using full_names_free [OF P(2) inv ss(1) empty] that ss(2) by simp
  have dist: "distinct (map yf_name ?fans)" using P(2) by (simp add: fan_names_ok_def)
  have start: "fans_todo P name a st ?fans ([], st)"
    unfolding fans_todo_def prod.case using inv dist free ss
    by (intro conjI exI [of _ "subsystem_fans ss"] exI [of _ ss]) auto
  have "post {} (fans_todo P name a st []) (foreach (add_fan P name a) ?fans ([], st))"
    by (rule post_foreach_todo [where I = "fans_todo P name a st"])
      (use start fans_todo_step [OF P(1) info] in blast)+
  then obtain arr st' where loop: "foreach (add_fan P name a) ?fans ([], st) = Inr (arr, st')"
    and fin: "fans_todo P name a st [] (arr, st')" by (auto dest!: post_total)
  from fin obtain t ss0 where "subsys_mem st a = Some ss0" "subsys_mem st' a = Some (ss0\<lparr>subsystem_fans := t\<rparr>)"
    and "fst ` set (shash_nodes P t) = fst ` set (shash_nodes P (subsystem_fans ss0)) \<union>
      (\<lambda>g. full_name name (yf_name g)) ` (set ?fans - set [])"
    unfolding fans_todo_def prod.case by (elim conjE exE) (rule that)
  with loop fin ss empty show ?thesis by (intro that [of arr st' t]) auto
qed

lemma speed_trace_fans:
  "speed_trace P y (ss\<lparr>valid := v, subsystem_fans := t\<rparr>) = speed_trace P y ss"
  "fand_choose_speed (ss\<lparr>valid := v, subsystem_fans := t\<rparr>) = fand_choose_speed ss"
  by (rule speed_trace_cong choose_speed_cong; simp)+

text \<open>From the end of the loop to the end: the transaction and the speed.\<close>

lemma fans_added_finish:
  fixes st :: "('s, 'y, 'h) fand" and P :: "('s, 'y, 'h) platform" and cfg :: ovsrec_subsystem
  defines "fans \<equiv> yaml_fans P (yaml_handle st) (os_name cfg)"
  assumes P: "yaml_ok P"
    and st1: "st1 = log_io (FanCountEvent (os_name cfg) (length fans)) (put_subsys a (ss\<lparr>valid := True\<rparr>) st)"
    and fin: "fans_todo P (os_name cfg) a st1 [] (arr, st2)"
    and ss2: "subsys_mem st2 a = Some (ss\<lparr>valid := True, subsystem_fans := t\<rparr>)"
    and t: "fst ` set (shash_nodes P t) = (\<lambda>g. full_name (os_name cfg) (yf_name g)) ` set fans"
    and st3: "st3 = commit_block P (idl st) (st2\<lparr>idl := set_subsystem_fans (os_uuid cfg) arr (idl st2)\<rparr>)"
  shows "post {} (fans_added P cfg a ss st) (fand_set_fanspeed P a st3)"
proof -
  let ?ss = "ss\<lparr>valid := True, subsystem_fans := t\<rparr>"
  have y1: "yaml_handle st1 = yaml_handle st" by (simp add: st1)
  have ss3: "subsys_mem st3 a = Some ?ss" using ss2 by (simp add: st3 commit_block_def)
  have inv3: "fand_inv P st3" using fin by (simp add: st3 fans_todo_def)
  have g: "subsystem_data st3 = subsystem_data st" "yaml_handle st3 = yaml_handle st" "idl_seqno st3 = idl_seqno st"
      "cur_hw_set st3 = cur_hw_set st" "\<forall>b. b \<noteq> a \<longrightarrow> subsys_mem st3 b = subsys_mem st b"
      "\<forall>p f. fan_mem st p = Some f \<longrightarrow> fan_mem st3 p = Some f"
      "\<forall>p f. fan_mem st3 p = Some f \<and> fan_mem st p = None \<longrightarrow>
        (\<exists>g. f = new_fan P p (full_name (os_name cfg) (yf_name g)) a g)"
      "io st3 = io st @ [FanCountEvent (os_name cfg) (length fans), CommitEvent]"
      "idl st3 = txn_commit_block P (idl st) (set_subsystem_fans (os_uuid cfg) arr (idl st2))"
    using fin y1 by (simp_all add: fans_todo_def st1 st3 commit_block_def log_io_def put_subsys_def fans_def)
  have "init_rows P (full_names (os_name cfg) fans) (idl st) = (arr, idl st2)"
    using fin y1 by (simp add: fans_todo_def st1 fans_def full_names_def)
  with g(9) have staged_rows: "idl st3 = txn_commit_block P (idl st) (fan_rows_staged P cfg fans (idl st))"
    by (simp add: fan_rows_staged_def)
  from speed_op.inv_post [OF inv3 inv_speed_ok [OF P ss3]] show ?thesis
  proof (rule post_mono)
    fix st'
    assume 4: "speed_effect P a st3 st' \<and> hw_frame st3 st' \<and> fand_inv P st'"
    then have b: "bus_op (put_subsys a (?ss\<lparr>speed := fand_choose_speed ss\<rparr>) st3) (speed_trace P (yaml_handle st) ss) st'"
      by (simp add: speed_effect_def ss3 speed_trace_fans g(2))
    then have f: "subsystem_data st' = subsystem_data st"
        "subsys_mem st' = (subsys_mem st3)(a \<mapsto> ?ss\<lparr>speed := fand_choose_speed ss\<rparr>)"
        "fan_mem st' = fan_mem st3" "yaml_handle st' = yaml_handle st" "idl_seqno st' = idl_seqno st"
        "cur_hw_set st' = cur_hw_set st" "idl st' = idl st3"
        "io st' = (io st @ [FanCountEvent (os_name cfg) (length fans), CommitEvent]) @ speed_trace P (yaml_handle st) ss"
      using g by (auto simp: bus_op_def put_subsys_def dest!: same_daemon_fields)
    have "\<exists>u. ((subsys_mem st3)(a \<mapsto> ?ss\<lparr>speed := fand_choose_speed ss\<rparr>)) a =
          Some (ss\<lparr>valid := True, subsystem_fans := u, speed := fand_choose_speed ss\<rparr>) \<and>
        fst ` set (shash_nodes P u) = (\<lambda>g. full_name (os_name cfg) (yf_name g)) ` set fans"
      using t by (intro exI [of _ t]) simp
    then show "fans_added P cfg a ss st st'"
      unfolding fans_added_def Let_def fans_def [symmetric] f using 4 g(5-7) staged_rows by simp
  qed
qed

lemma add_all_fans_post:
  assumes P: "shash_ok P" "yaml_ok P" "fan_names_ok P"
    and inv: "fand_inv P st" and ss: "subsys_mem st a = Some ss" "ls_name ss = os_name cfg"
    and empty: "shash_nodes P (subsystem_fans ss) = []"
    and info: "yaml_get_fan_info P (yaml_handle st) (os_name cfg) \<noteq> None"
    and n: "n = unat (yaml_get_fan_fru_count P (yaml_handle st) (os_name cfg))"
  shows "post {} (\<lambda>(r, st'). r = Some a \<and> fans_added P cfg a ss st st') (add_all_fans P cfg a n st)"
proof -
  let ?y = "yaml_handle st" and ?name = "os_name cfg"
  let ?fans = "yaml_fans P ?y ?name"
  define st1 where "st1 = log_io (FanCountEvent ?name (length ?fans)) (put_subsys a (ss\<lparr>valid := True\<rparr>) st)"
  have y1: "yaml_handle st1 = ?y" by (simp add: st1_def)
  have "fand_inv P (put_subsys a (ss\<lparr>valid := True\<rparr>) st)"
    by (rule fand_inv_put_subsys [OF inv ss(1)]) (simp add: subsys_link_def)
  then have inv1: "fand_inv P st1" by (simp add: st1_def)
  have ss1: "subsys_mem st1 a = Some (ss\<lparr>valid := True\<rparr>)" by (simp add: st1_def)
  obtain arr st2 t where loop: "foreach (add_fan P ?name a) ?fans ([], st1) = Inr (arr, st2)"
    and fin: "fans_todo P ?name a st1 [] (arr, st2)"
    and ss2: "subsys_mem st2 a = Some (ss\<lparr>valid := True, subsystem_fans := t\<rparr>)"
    and t: "fst ` set (shash_nodes P t) = (\<lambda>g. full_name ?name (yf_name g)) ` set ?fans"
    by (rule add_fans_loop [OF P(1,3) inv1 ss1, of ?name]) (use ss(2) empty info y1 in simp_all)
  define st3 where "st3 = commit_block P (idl st) (st2\<lparr>idl := set_subsystem_fans (os_uuid cfg) arr (idl st2)\<rparr>)"
  have "add_all_fans P cfg a n st = and_then (fand_set_fanspeed P a st3) (\<lambda>st. Inr (Some a, st))"
    using add_fru_fans_concat [OF P(2), of ?y ?name a "([], st1)"] count_fans_yaml [OF P(2), of ?y ?name] loop ss(1)
    by (simp add: add_all_fans_def get_subsys_def Let_def n st1_def st3_def)
  with fans_added_finish [OF P(2) st1_def fin ss2 t st3_def] show ?thesis
    by (auto elim: post_and_then)
qed

text \<open>
  The outcome of \<open>add_subsystem\<close>: a new subsystem at a fresh address. It is valid exactly when it is
  returned; otherwise it has no fans, and the database, the bus and the log were not touched.
\<close>

definition subsys_added :: "('s, 'y, 'h) platform \<Rightarrow> ovsrec_subsystem \<Rightarrow> ('s, 'y, 'h) fand \<Rightarrow>
    addr option \<times> ('s, 'y, 'h) fand \<Rightarrow> bool" where
  "subsys_added P cfg st = (\<lambda>(r, st').
     fand_inv P st' \<and>
     (\<forall>b. b \<noteq> next_addr st \<longrightarrow> subsys_mem st' b = subsys_mem st b) \<and>
     (\<forall>p f. fan_mem st p = Some f \<longrightarrow> fan_mem st' p = Some f) \<and>
     idl_seqno st' = idl_seqno st \<and> cur_hw_set st' = cur_hw_set st \<and> (loadable P cfg \<longrightarrow> r \<noteq> None) \<and>
     (\<forall>m. m \<noteq> os_name cfg \<longrightarrow> yaml_view P (yaml_handle st') m = yaml_view P (yaml_handle st) m) \<and>
     (\<exists>ss. subsys_mem st' (next_addr st) = Some ss \<and> ls_name ss = os_name cfg \<and>
        marked ss = False \<and> valid ss = (r \<noteq> None) \<and> fan_speed ss = FAND_SPEED_NORMAL \<and>
        fan_speed_override ss = fan_speed_override (new_subsystem P cfg) \<and>
        (case r of
           None \<Rightarrow> shash_nodes P (subsystem_fans ss) = [] \<and> fan_data st' = fan_data st \<and>
             fan_mem st' = fan_mem st \<and> idl st' = idl st \<and> hw st' = hw st \<and> io st' = io st
         | Some a \<Rightarrow> a = next_addr st \<and>
             (let fans = yaml_fans P (yaml_handle st') (os_name cfg) in
              fst ` set (shash_nodes P (subsystem_fans ss)) =
                (\<lambda>g. full_name (os_name cfg) (yf_name g)) ` set fans \<and>
              idl st' = txn_commit_block P (idl st) (fan_rows_staged P cfg fans (idl st)) \<and>
              (\<forall>p f. fan_mem st' p = Some f \<and> fan_mem st p = None \<longrightarrow>
                 (\<exists>g. f = new_fan P p (full_name (os_name cfg) (yf_name g)) a g)) \<and>
              speed ss = fand_choose_speed ss \<and>
              (\<exists>info. yaml_get_fan_info P (yaml_handle st') (os_name cfg) = Some info \<and>
                 multiplier ss = fan_speed_multiplier info \<and> numerator ss = fan_speed_numerator info) \<and>
              io st' = io st @ [FanCountEvent (os_name cfg) (length fans), CommitEvent] @
                speed_trace P (yaml_handle st') ss))))"

lemma new_subsystem_simps [simp]:
  "ls_name (new_subsystem P cfg) = os_name cfg" "marked (new_subsystem P cfg) = False"
  "valid (new_subsystem P cfg) = False" "fan_speed (new_subsystem P cfg) = FAND_SPEED_NORMAL"
  "subsystem_fans (new_subsystem P cfg) = shash_init P"
  by (simp_all add: new_subsystem_def)

lemma subsys_added_None:
  assumes P: "shash_ok P" and inv: "fand_inv P st'"
    and st': "subsys_mem st' = (subsys_mem st)(next_addr st \<mapsto> new_subsystem P cfg\<lparr>multiplier := m, numerator := n\<rparr>)"
      "fan_data st' = fan_data st" "fan_mem st' = fan_mem st" "idl st' = idl st" "hw st' = hw st"
      "io st' = io st" "idl_seqno st' = idl_seqno st" "cur_hw_set st' = cur_hw_set st"
    and view: "\<forall>m. m \<noteq> os_name cfg \<longrightarrow> yaml_view P (yaml_handle st') m = yaml_view P (yaml_handle st) m"
    and fail: "\<not> loadable P cfg"
  shows "subsys_added P cfg st (None, st')"
  using inv P view fail by (simp add: subsys_added_def st')

lemma subsys_added_Some:
  assumes P: "shash_ok P" and fans: "fans_added P cfg (next_addr st) ss st1 st'"
    and ss: "ss = (new_subsystem P cfg)\<lparr>multiplier := m, numerator := n\<rparr>"
    and st1: "subsys_mem st1 = (subsys_mem st)(next_addr st \<mapsto> ss)" "fan_mem st1 = fan_mem st"
      "idl st1 = idl st" "io st1 = io st" "idl_seqno st1 = idl_seqno st" "cur_hw_set st1 = cur_hw_set st"
    and view: "\<forall>m. m \<noteq> os_name cfg \<longrightarrow> yaml_view P (yaml_handle st1) m = yaml_view P (yaml_handle st) m"
    and info: "yaml_get_fan_info P (yaml_handle st1) (os_name cfg) = Some info"
      "m = fan_speed_multiplier info" "n = fan_speed_numerator info"
  shows "subsys_added P cfg st (Some (next_addr st), st')"
proof -
  from fans obtain t where "subsys_mem st' (next_addr st) =
      Some (ss\<lparr>valid := True, subsystem_fans := t, speed := fand_choose_speed ss\<rparr>)"
    and "fst ` set (shash_nodes P t) = (\<lambda>g. full_name (os_name cfg) (yf_name g)) `
      set (yaml_fans P (yaml_handle st') (os_name cfg))"
    unfolding fans_added_def Let_def by (elim conjE exE) (rule that, simp_all)
  moreover have "fand_choose_speed (ss\<lparr>valid := True, subsystem_fans := t, speed := fand_choose_speed ss\<rparr>) =
      fand_choose_speed ss" for t by (rule choose_speed_cong) simp_all
  moreover have "speed_trace P y (ss\<lparr>valid := True, subsystem_fans := t, speed := fand_choose_speed ss\<rparr>) =
      speed_trace P y ss" for t y by (rule speed_trace_cong) simp_all
  ultimately show ?thesis using fans st1 view info
    by (auto simp: subsys_added_def fans_added_def Let_def ss)
qed

text \<open>The state in which the new block has been entered, and the description loaded into it.\<close>

definition placed :: "('s, 'y, 'h) platform \<Rightarrow> ovsrec_subsystem \<Rightarrow> ('s, 'y, 'h) fand \<Rightarrow> ('s, 'y, 'h) fand" where
  "placed P cfg st = put_subsys (next_addr st) (new_subsystem P cfg) (st\<lparr>next_addr := Suc (next_addr st),
     subsystem_data := shash_add P (subsystem_data st) (os_name cfg) (next_addr st)\<rparr>)"

lemma placed_simps [simp]:
  "subsys_mem (placed P cfg st) = (subsys_mem st)(next_addr st \<mapsto> new_subsystem P cfg)"
  "fan_data (placed P cfg st) = fan_data st" "fan_mem (placed P cfg st) = fan_mem st"
  "idl (placed P cfg st) = idl st" "hw (placed P cfg st) = hw st" "io (placed P cfg st) = io st"
  "idl_seqno (placed P cfg st) = idl_seqno st" "cur_hw_set (placed P cfg st) = cur_hw_set st"
  by (simp_all add: placed_def put_subsys_def)

lemma placed_inv:
  assumes "shash_ok P" "fand_inv P st" "os_name cfg \<notin> fst ` set (shash_nodes P (subsystem_data st))"
  shows "fand_inv P (placed P cfg st)"
  using fand_inv_new_subsystem [OF assms(1,2), of "new_subsystem P cfg"] assms(3) by (simp add: placed_def)

lemma placed_described:
  assumes P: "shash_ok P" "yaml_ok P" and inv: "fand_inv P st"
    and fresh: "os_name cfg \<notin> fst ` set (shash_nodes P (subsystem_data st))"
  shows "\<exists>ok y. load_description P cfg (placed P cfg st) = (ok, (placed P cfg st)\<lparr>yaml_handle := y\<rparr>) \<and>
    fand_inv P ((placed P cfg st)\<lparr>yaml_handle := y\<rparr>) \<and>
    (\<forall>m. m \<noteq> os_name cfg \<longrightarrow> yaml_view P y m = yaml_view P (yaml_handle st) m)"
proof -
  let ?a = "next_addr st" and ?st = "placed P cfg st"
  note inv1 = placed_inv [OF P(1) inv fresh]
  have new: "subsys_mem ?st ?a = Some (new_subsystem P cfg)" by simp
  have other: "ls_name ss \<noteq> os_name cfg"
    if "fan_mem ?st p = Some f" "subsys_mem ?st (subsystem f) = Some ss" for p f ss
  proof
    assume "ls_name ss = os_name cfg"
    then have "subsystem f = ?a" by (intro inv_subsys_name_inject [OF inv1 that(2) new]) simp
    moreover have "fan_mem st p = Some f" using that(1) by simp
    ultimately have "subsys_mem st ?a \<noteq> None" using inv by (force simp: fand_inv_def subsystem_fans_ok_def)
    then show False using inv by (auto simp: fand_inv_def addrs_ok_def)
  qed
  from load_description_post [OF P(2), of cfg ?st] obtain ok y
    where load: "load_description P cfg ?st = (ok, ?st\<lparr>yaml_handle := y\<rparr>)"
      and view: "\<forall>m. m \<noteq> os_name cfg \<longrightarrow> yaml_view P y m = yaml_view P (yaml_handle ?st) m" by blast
  have "fand_inv P (?st\<lparr>yaml_handle := y\<rparr>)"
    by (rule fand_inv_yaml [OF inv1, of "os_name cfg"]) (use view other in auto)
  moreover have "yaml_handle ?st = yaml_handle st" by (simp add: placed_def)
  ultimately show ?thesis using load view by metis
qed

lemma add_subsystem_post:
  assumes P: "shash_ok P" "yaml_ok P" "fan_names_ok P"
    and inv: "fand_inv P st" and fresh: "os_name cfg \<notin> fst ` set (shash_nodes P (subsystem_data st))"
  shows "post {} (subsys_added P cfg st) (add_subsystem P cfg st)"
proof -
  let ?a = "next_addr st"
  from placed_described [OF P(1,2) inv fresh] obtain ok y
    where load: "load_description P cfg (placed P cfg st) = (ok, (placed P cfg st)\<lparr>yaml_handle := y\<rparr>)"
      and inv2: "fand_inv P ((placed P cfg st)\<lparr>yaml_handle := y\<rparr>)"
      and view: "\<forall>m. m \<noteq> os_name cfg \<longrightarrow> yaml_view P y m = yaml_view P (yaml_handle st) m" by blast
  define st2 where "st2 = (placed P cfg st)\<lparr>yaml_handle := y\<rparr>"
  note inv2 = inv2 [folded st2_def]
  have zero: "new_subsystem P cfg = (new_subsystem P cfg)\<lparr>multiplier := 0, numerator := 0\<rparr>"
    by (simp add: new_subsystem_def)
  have fail: "subsys_added P cfg st (None, st2)" if "\<not> loadable P cfg"
    by (rule subsys_added_None [where m = 0 and n = 0, OF P(1) inv2], subst zero [symmetric])
      (simp_all add: st2_def view that)
  show ?thesis
  proof (cases "ok \<and> yaml_get_fan_info P y (os_name cfg) \<noteq> None")
    case False
    then have "add_subsystem P cfg st = Inr (None, st2)"
      using load by (auto simp: add_subsystem_def Let_def placed_def [symmetric] st2_def)
    moreover from False loadable_loads [OF _ load] have "\<not> loadable P cfg" by blast
    ultimately show ?thesis using fail by simp
  next
    case True
    then obtain info where info: "yaml_get_fan_info P y (os_name cfg) = Some info" by blast
    let ?ss = "(new_subsystem P cfg)\<lparr>multiplier := fan_speed_multiplier info, numerator := fan_speed_numerator info\<rparr>"
    let ?n = "yaml_get_fan_fru_count P y (os_name cfg)"
    define st3 where "st3 = put_subsys ?a ?ss st2"
    have inv3: "fand_inv P st3"
      unfolding st3_def by (rule fand_inv_put_subsys [OF inv2, of _ "new_subsystem P cfg"])
        (simp_all add: st2_def subsys_link_def)
    have run: "add_subsystem P cfg st = (if ?n \<le> 0 then Inr (None, st3) else add_all_fans P cfg ?a (unat ?n) st3)"
      using True info load by (simp add: add_subsystem_def Let_def placed_def [symmetric] st3_def st2_def)
    have fields: "subsys_mem st3 = (subsys_mem st)(?a \<mapsto> ?ss)" "fan_data st3 = fan_data st"
        "fan_mem st3 = fan_mem st" "idl st3 = idl st" "hw st3 = hw st" "io st3 = io st"
        "idl_seqno st3 = idl_seqno st" "cur_hw_set st3 = cur_hw_set st" "yaml_handle st3 = y"
      by (simp_all add: st3_def st2_def put_subsys_def)
    have none: "subsys_added P cfg st (None, st3)" if "?n \<le> 0"
      by (rule subsys_added_None [OF P(1) inv3])
        (use loadable_loads [OF _ load] that in \<open>auto simp: fields view\<close>)
    have "post {} (\<lambda>(r, st'). r = Some ?a \<and> fans_added P cfg ?a ?ss st3 st') (add_all_fans P cfg ?a (unat ?n) st3)"
      by (rule add_all_fans_post [OF P inv3]) (simp_all add: fields info P)
    then have "post {} (subsys_added P cfg st) (add_all_fans P cfg ?a (unat ?n) st3)"
      by (rule post_mono) (use fields view info in \<open>auto intro!: subsys_added_Some [OF P(1)]\<close>)
    with none show ?thesis by (simp add: run)
  qed
qed

section \<open>Looking up\<close>

lemma get_subsystem_known:
  assumes P: "shash_ok P" and inv: "fand_inv P st"
    and ss: "subsys_mem st a = Some ss" "ls_name ss = os_name cfg"
  shows "get_subsystem P cfg st = Inr (if valid ss then Some a else None, st)"
proof -
  have "(os_name cfg, a) \<in> set (shash_nodes P (subsystem_data st))"
    using inv_subsys_node [OF inv ss(1)] ss(2) by simp
  then have "shash_find P (subsystem_data st) (os_name cfg) = Some (os_name cfg, a)"
    using fand_inv_nodes(1) [OF inv] by (intro find_unique [OF P])
  with ss(1) show ?thesis by (simp add: get_subsystem_def get_subsys_def)
qed

lemma get_subsystem_new:
  "shash_ok P \<Longrightarrow> os_name cfg \<notin> fst ` set (shash_nodes P (subsystem_data st)) \<Longrightarrow>
    get_subsystem P cfg st = add_subsystem P cfg st"
  using find_None [of P "subsystem_data st" "os_name cfg"] by (simp add: get_subsystem_def)

lemma subsystem_known_or_new:
  assumes "fand_inv P st"
  obtains a ss where "subsys_mem st a = Some ss" "ls_name ss = n"
  | "n \<notin> fst ` set (shash_nodes P (subsystem_data st))"
  using assms by (force dest: inv_node_subsys)

text \<open>The outcome: the subsystem of that name if it is valid, every other subsystem as it was.\<close>

definition subsys_got :: "('s, 'y, 'h) platform \<Rightarrow> ovsrec_subsystem \<Rightarrow> ('s, 'y, 'h) fand \<Rightarrow>
    addr option \<times> ('s, 'y, 'h) fand \<Rightarrow> bool" where
  "subsys_got P cfg st = (\<lambda>(r, st').
     fand_inv P st' \<and> idl_seqno st' = idl_seqno st \<and> cur_hw_set st' = cur_hw_set st \<and>
     (\<forall>b ss. subsys_mem st b = Some ss \<longrightarrow> subsys_mem st' b = Some ss) \<and>
     (\<forall>p f. fan_mem st p = Some f \<longrightarrow> fan_mem st' p = Some f) \<and>
     (\<exists>a ss. subsys_mem st' a = Some ss \<and> ls_name ss = os_name cfg \<and>
        r = (if valid ss then Some a else None) \<and> (subsys_mem st a = None \<longrightarrow>
          \<not> marked ss \<and> (valid ss \<or> shash_nodes P (subsystem_fans ss) = []) \<and>
          (loadable P cfg \<longrightarrow> valid ss)) \<and>
        (\<forall>b. b \<noteq> a \<longrightarrow> subsys_mem st' b = subsys_mem st b)))"

lemma get_subsystem_post:
  assumes P: "shash_ok P" "yaml_ok P" "fan_names_ok P" and inv: "fand_inv P st"
  shows "post {} (subsys_got P cfg st) (get_subsystem P cfg st)"
  using inv
proof (cases rule: subsystem_known_or_new [of P st "os_name cfg"])
  case (1 a ss)
  have "subsys_got P cfg st (if valid ss then Some a else None, st)"
    unfolding subsys_got_def prod.case using 1 inv
    by (intro conjI exI [of _ a] exI [of _ ss]) simp_all
  then show ?thesis by (simp add: get_subsystem_known [OF P(1) inv 1])
next
  case 2
  have none: "subsys_mem st (next_addr st) = None" using inv by (force simp: fand_inv_def addrs_ok_def)
  have "post {} (subsys_added P cfg st) (get_subsystem P cfg st)"
    using add_subsystem_post [OF P inv 2] get_subsystem_new [OF P(1) 2] by simp
  then show ?thesis
  proof (rule post_mono)
    fix x assume x: "subsys_added P cfg st x"
    obtain r st' where x': "x = (r, st')" by (cases x)
    from x obtain ss where ss: "subsys_mem st' (next_addr st) = Some ss" "ls_name ss = os_name cfg"
      "\<not> marked ss" "valid ss = (r \<noteq> None)" "valid ss \<or> shash_nodes P (subsystem_fans ss) = []"
      "loadable P cfg \<longrightarrow> valid ss"
      and r: "\<forall>a. r = Some a \<longrightarrow> a = next_addr st"
      unfolding x' subsys_added_def prod.case by (auto split: option.splits)
    have "r = (if valid ss then Some (next_addr st) else None)" using ss(4) r by (cases r) auto
    moreover have "subsys_mem st' b = Some ss'" if "subsys_mem st b = Some ss'" for b ss'
      using x that none unfolding x' subsys_added_def prod.case by (metis option.distinct(1))
    ultimately show "subsys_got P cfg st x"
      using x ss none unfolding x' subsys_added_def subsys_got_def prod.case by blast
  qed
qed

section \<open>The database rows of new fans\<close>

text \<open>
  The row of a fan that is added: whether it was there or had to be inserted, the table then has a row
  with the returned uuid, of the fan's name, with the default status, direction and speed; the rows that
  do not have this uuid are the same as before.
\<close>

definition new_row :: "nat \<Rightarrow> string \<Rightarrow> ovsrec_fan \<Rightarrow> bool" where
  "new_row u n r \<longleftrightarrow> of_uuid r = u \<and> of_name r = n \<and> of_status r = ''uninitialized'' \<and>
     of_direction r = ''f2b'' \<and> of_speed r = ''normal''"

lemma fan_row_init_result:
  assumes "fan_insert_ok P" "fan_row_init P n i = (u, i')"
  shows "(\<exists>r \<in> set (idl_fans i'). new_row u n r) \<and>
    mset (filter (\<lambda>r. of_uuid r \<noteq> u) (idl_fans i')) = mset (filter (\<lambda>r. of_uuid r \<noteq> u) (idl_fans i)) \<and>
    idl_subsystems i' = idl_subsystems i \<and>
    (\<exists>us. (us = [] \<or> us = [u] \<and> u \<notin> of_uuid ` set (idl_fans i)) \<and>
      mset (map of_uuid (idl_fans i')) = mset (us @ map of_uuid (idl_fans i))) \<and>
    (u \<in> of_uuid ` set (idl_fans i) \<longrightarrow> (\<exists>r \<in> set (idl_fans i). of_uuid r = u \<and> of_name r = n))"
proof -
  let ?g = "\<lambda>r. r\<lparr>of_name := n, of_status := ''uninitialized'', of_direction := ''f2b'', of_speed := ''normal''\<rparr>"
  let ?upd = "\<lambda>r. if of_uuid r = u then ?g r else r"
  have names: "fan_status_enum_to_string FAND_STATUS_UNINITIALIZED = ''uninitialized''"
    "fan_speed_enum_to_string FAND_SPEED_NORMAL = ''normal''"
    by (simp_all add: fan_status_enum_to_string_def fanstatus_string_def fan_speed_enum_to_string_def fanspeed_string_def)
  have keep: "filter (\<lambda>r. of_uuid r \<noteq> u) (map ?upd rows) = filter (\<lambda>r. of_uuid r \<noteq> u) rows" for rows
    by (induction rows) auto
  obtain rows where rows: "i' = i\<lparr>idl_fans := map ?upd rows\<rparr>" "u \<in> of_uuid ` set rows"
    and uuids: "\<exists>us. (us = [] \<or> us = [u] \<and> u \<notin> of_uuid ` set (idl_fans i)) \<and>
      mset (map of_uuid rows) = mset (us @ map of_uuid (idl_fans i))"
    and named: "u \<in> of_uuid ` set (idl_fans i) \<longrightarrow> (\<exists>r \<in> set (idl_fans i). of_uuid r = u \<and> of_name r = n)"
    and old: "mset (filter (\<lambda>r. of_uuid r \<noteq> u) rows) = mset (filter (\<lambda>r. of_uuid r \<noteq> u) (idl_fans i))"
  proof (cases "lookup_fan n i")
    case None
    obtain rs v where ins: "fan_insert P (idl_fans i) = (rs, v)" by fastforce
    with None assms(2) have "v = u" "i' = i\<lparr>idl_fans := map ?upd rs\<rparr>"
      by (auto simp: fan_row_init_def fan_row_update_def names)
    moreover from ins assms(1) obtain r where r: "of_uuid r = v" "mset rs = add_mset r (mset (idl_fans i))"
        "v \<notin> of_uuid ` set (idl_fans i)"
      by (fastforce simp: fan_insert_ok_def dest!: spec [of _ "idl_fans i"])
    moreover have "r \<in> set rs" using r(2) by (metis set_mset_mset union_single_eq_member)
    moreover from r have "mset (map of_uuid rs) = mset ([v] @ map of_uuid (idl_fans i))" by simp
    ultimately show ?thesis using r(3) by (intro that [of rs]) (auto simp: mset_filter)
  next
    case (Some v)
    then have "\<exists>r \<in> set (idl_fans i). of_uuid r = v \<and> of_name r = n" by (auto simp: lookup_fan_def find_Some_iff)
    moreover have "v = u" "i' = i\<lparr>idl_fans := map ?upd (idl_fans i)\<rparr>"
      using Some assms(2) by (auto simp: fan_row_init_def fan_row_update_def names)
    ultimately show ?thesis by (intro that [of "idl_fans i"]) auto
  qed
  from rows(2) obtain r where "r \<in> set rows" "of_uuid r = u" by blast
  then have "?g r \<in> set (idl_fans i')" "of_uuid (?g r) = u" by (force simp: rows(1))+
  then have "\<exists>r \<in> set (idl_fans i'). new_row u n r" by (intro bexI [of _ "?g r"]) (simp_all add: new_row_def)
  moreover have "map of_uuid (map ?upd rows) = map of_uuid rows" by simp
  ultimately show ?thesis using old uuids named by (simp add: rows(1) keep del: map_map)
qed

text \<open>With unique uuids, a row of another name is left alone.\<close>

lemma fan_row_init_step:
  assumes P: "fan_insert_ok P" and d: "distinct (map of_uuid (idl_fans i))"
    and ini: "fan_row_init P n i = (u, i')"
  shows "distinct (map of_uuid (idl_fans i'))" "\<exists>r \<in> set (idl_fans i'). new_row u n r"
    "idl_subsystems i' = idl_subsystems i"
    "\<And>r. r \<in> set (idl_fans i) \<Longrightarrow> of_name r \<noteq> n \<Longrightarrow> r \<in> set (idl_fans i')"
proof -
  note res = fan_row_init_result [OF P ini]
  from res obtain us where "us = [] \<or> us = [u] \<and> u \<notin> of_uuid ` set (idl_fans i)"
    "mset (map of_uuid (idl_fans i')) = mset (us @ map of_uuid (idl_fans i))" by blast
  then show "distinct (map of_uuid (idl_fans i'))"
    using d mset_eq_imp_distinct_iff [of "map of_uuid (idl_fans i')" "us @ map of_uuid (idl_fans i)"] by auto
  show "\<exists>r \<in> set (idl_fans i'). new_row u n r" "idl_subsystems i' = idl_subsystems i" using res by blast+
  fix r assume r: "r \<in> set (idl_fans i)" "of_name r \<noteq> n"
  have "of_uuid r \<noteq> u"
  proof
    assume u: "of_uuid r = u"
    with res r(1) obtain r' where "r' \<in> set (idl_fans i)" "of_uuid r' = u" "of_name r' = n" by blast
    with d u r show False by (metis distinct_map inj_onD)
  qed
  with r(1) have "r \<in> set (filter (\<lambda>r. of_uuid r \<noteq> u) (idl_fans i))" by simp
  also have "\<dots> = set (filter (\<lambda>r. of_uuid r \<noteq> u) (idl_fans i'))" using res by (metis set_mset_mset)
  finally show "r \<in> set (idl_fans i')" by simp
qed

lemma init_rows_listed:
  assumes P: "fan_insert_ok P"
  shows "distinct (map of_uuid (idl_fans i)) \<Longrightarrow> distinct ns \<Longrightarrow> init_rows P ns i = (us, i') \<Longrightarrow>
    distinct (map of_uuid (idl_fans i')) \<and> idl_subsystems i' = idl_subsystems i \<and>
    list_all2 (\<lambda>u n. \<exists>r \<in> set (idl_fans i'). new_row u n r) us ns \<and>
    (\<forall>r \<in> set (idl_fans i). of_name r \<notin> set ns \<longrightarrow> r \<in> set (idl_fans i'))"
proof (induction ns arbitrary: i us)
  case (Cons n ns)
  obtain u i1 where 1: "fan_row_init P n i = (u, i1)" by fastforce
  obtain us2 where 2: "init_rows P ns i1 = (us2, i')" "us = u # us2"
    using Cons.prems(3) 1 by (auto split: prod.splits)
  note step = fan_row_init_step [OF P Cons.prems(1) 1]
  from step(2) obtain r where r: "r \<in> set (idl_fans i1)" "new_row u n r" by blast
  from Cons.IH [OF step(1) _ 2(1)] Cons.prems(2)
  have IH: "distinct (map of_uuid (idl_fans i'))" "idl_subsystems i' = idl_subsystems i1"
    "list_all2 (\<lambda>u n. \<exists>r \<in> set (idl_fans i'). new_row u n r) us2 ns"
    "\<And>r. r \<in> set (idl_fans i1) \<Longrightarrow> of_name r \<notin> set ns \<Longrightarrow> r \<in> set (idl_fans i')" by simp_all
  have "r \<in> set (idl_fans i')" using IH(4) r Cons.prems(2) by (simp add: new_row_def)
  with r(2) IH step show ?case by (auto simp: 2(2))
qed simp

lemma distinct_full_names: "distinct (map yf_name fans) \<Longrightarrow> distinct (full_names name fans)"
  by (auto simp: full_names_def distinct_map inj_on_def)

text \<open>Rows with unique uuids and different names have different uuids.\<close>

lemma listed_distinct:
  assumes "distinct (map of_uuid rows)" "distinct ns"
    and l: "list_all2 (\<lambda>u n. \<exists>r \<in> set rows. new_row u n r) us ns"
  shows "distinct us"
proof -
  have inj: "m = n" if "\<exists>r \<in> set rows. new_row u m r" "\<exists>r \<in> set rows. new_row u n r" for u m n
    using that assms(1) unfolding new_row_def by (metis distinct_map inj_onD)
  from l assms(2) show ?thesis
  proof (induction us ns rule: list_all2_induct)
    case (Cons u us n ns)
    have "u \<notin> set us"
    proof
      assume "u \<in> set us"
      then obtain j where j: "j < length us" "us ! j = u" by (auto simp: in_set_conv_nth)
      from list_all2_nthD [OF Cons(2) j(1)] j(2) have "\<exists>r \<in> set rows. new_row u (ns ! j) r" by simp
      moreover have "ns ! j \<in> set ns" using j(1) list_all2_lengthD [OF Cons(2)] by simp
      ultimately obtain m where "m \<in> set ns" "\<exists>r \<in> set rows. new_row u m r" by blast
      with inj [OF Cons(1)] Cons.prems show False by auto
    qed
    with Cons show ?case by simp
  qed simp
qed

section \<open>Properties\<close>

text \<open>
  C7: adding a subsystem. There is no fault; a new block of the row's name appears at a fresh address;
  every block that was there is unchanged. NULL is returned only if the row's description cannot be
  loaded (no directory, a failing library call, no fan information or no FRU); then the new subsystem is
  invalid and has no fans, and the database, the bus and the log are untouched. Otherwise it is valid
  and has exactly one fan for each fan of the description, one transaction makes their rows and lists
  them in the subsystem's row, and after the commit the chosen speed is written to the speed controls. The
  readings of the new fans are what \<open>malloc\<close> left in their blocks.
\<close>

theorem add_subsystem_effect:
  assumes "shash_ok P" "yaml_ok P" "fan_names_ok P" "fand_inv P st"
    and "os_name cfg \<notin> fst ` set (shash_nodes P (subsystem_data st))"
  shows "\<exists>r st' ss. add_subsystem P cfg st = Inr (r, st') \<and> fand_inv P st' \<and>
    (\<forall>b. b \<noteq> next_addr st \<longrightarrow> subsys_mem st' b = subsys_mem st b) \<and>
    (\<forall>p f. fan_mem st p = Some f \<longrightarrow> fan_mem st' p = Some f) \<and>
    subsys_mem st' (next_addr st) = Some ss \<and> ls_name ss = os_name cfg \<and> \<not> marked ss \<and>
    (loadable P cfg \<longrightarrow> r \<noteq> None) \<and>
    (case r of
       None \<Rightarrow> \<not> valid ss \<and> shash_nodes P (subsystem_fans ss) = [] \<and> fan_mem st' = fan_mem st \<and>
         idl st' = idl st \<and> io st' = io st
     | Some a \<Rightarrow> a = next_addr st \<and> valid ss \<and>
         (let fans = yaml_fans P (yaml_handle st') (os_name cfg) in
          fst ` set (shash_nodes P (subsystem_fans ss)) = set (full_names (os_name cfg) fans) \<and>
          idl st' = txn_commit_block P (idl st) (fan_rows_staged P cfg fans (idl st)) \<and>
          (\<forall>p f. fan_mem st' p = Some f \<and> fan_mem st p = None \<longrightarrow> subsystem f = a \<and>
             (lf_speed f, direction f, rpm f, status f) = malloc_fan P p) \<and>
          speed ss = fand_choose_speed ss \<and>
          io st' = io st @ [FanCountEvent (os_name cfg) (length fans), CommitEvent] @
            speed_trace P (yaml_handle st') ss))"
proof -
  from post_total [OF add_subsystem_post [OF assms]] obtain r st'
    where run: "add_subsystem P cfg st = Inr (r, st')" and a: "subsys_added P cfg st (r, st')" by fast
  show ?thesis
  proof (cases r)
    case None
    with a run show ?thesis by (auto simp: subsys_added_def)
  next
    case (Some b)
    have junk: "(lf_speed (new_fan P p n b g), direction (new_fan P p n b g), rpm (new_fan P p n b g),
        status (new_fan P p n b g)) = malloc_fan P p" for p n b g
      by (simp add: new_fan_def split: prod.split)
    from a Some obtain ss where ss: "fand_inv P st'" "\<forall>b. b \<noteq> next_addr st \<longrightarrow> subsys_mem st' b = subsys_mem st b"
        "\<forall>p f. fan_mem st p = Some f \<longrightarrow> fan_mem st' p = Some f"
        "subsys_mem st' (next_addr st) = Some ss" "ls_name ss = os_name cfg" "\<not> marked ss" "valid ss" "b = next_addr st"
        "fst ` set (shash_nodes P (subsystem_fans ss)) =
          set (full_names (os_name cfg) (yaml_fans P (yaml_handle st') (os_name cfg)))"
        "idl st' = txn_commit_block P (idl st)
          (fan_rows_staged P cfg (yaml_fans P (yaml_handle st') (os_name cfg)) (idl st))"
        "speed ss = fand_choose_speed ss"
        "io st' = io st @ [FanCountEvent (os_name cfg) (length (yaml_fans P (yaml_handle st') (os_name cfg))), CommitEvent] @
          speed_trace P (yaml_handle st') ss"
      and new: "\<forall>p f. fan_mem st' p = Some f \<and> fan_mem st p = None \<longrightarrow>
        (\<exists>g. f = new_fan P p (full_name (os_name cfg) (yf_name g)) b g)"
      by (auto simp: subsys_added_def Let_def set_full_names)
    have "\<forall>p f. fan_mem st' p = Some f \<and> fan_mem st p = None \<longrightarrow>
        subsystem f = b \<and> (lf_speed f, direction f, rpm f, status f) = malloc_fan P p"
      using new junk by (metis new_fan_simps(2))
    with run Some ss show ?thesis
      by (intro exI [of _ r] exI [of _ st'] exI [of _ ss]) (simp add: Let_def)
  qed
qed

text \<open>
  C27: the fans column of a new subsystem. On a database whose Fan rows have unique uuids and which
  commits, the subsystem's row then lists, in the order of the hardware description and without a
  repetition, the uuids of rows that are named after the fans and hold the default status, direction and
  speed, whether those rows were there before or not.
\<close>

theorem fans_column:
  assumes "shash_ok P" "yaml_ok P" "fan_names_ok P" "fan_insert_ok P" "commits P" "fand_inv P st"
    and "os_name cfg \<notin> fst ` set (shash_nodes P (subsystem_data st))"
    and "distinct (map of_uuid (idl_fans (idl st)))" "add_subsystem P cfg st = Inr (Some a, st')"
    and "row \<in> set (idl_subsystems (idl st'))" "os_uuid row = os_uuid cfg"
  shows "list_all2 (\<lambda>u g. \<exists>r \<in> set (idl_fans (idl st')). of_uuid r = u \<and>
        of_name r = full_name (os_name cfg) (yf_name g) \<and> of_status r = ''uninitialized'' \<and>
        of_direction r = ''f2b'' \<and> of_speed r = ''normal'')
      (os_fans row) (yaml_fans P (yaml_handle st') (os_name cfg)) \<and>
    distinct (os_fans row) \<and> distinct (map of_uuid (idl_fans (idl st')))"
proof -
  let ?fans = "yaml_fans P (yaml_handle st') (os_name cfg)" and ?n = "os_name cfg"
  have "idl st' = fan_rows_staged P cfg ?fans (idl st)"
    using add_subsystem_post [OF assms(1-3,6,7)] assms(5,9) by (auto simp: subsys_added_def Let_def commits_def)
  then obtain us i where rows: "init_rows P (full_names ?n ?fans) (idl st) = (us, i)"
    and i: "idl st' = set_subsystem_fans (os_uuid cfg) us i"
    by (cases "init_rows P (full_names ?n ?fans) (idl st)") (simp add: fan_rows_staged_def)
  have ns: "distinct (full_names ?n ?fans)"
    using assms(3) by (simp add: fan_names_ok_def distinct_full_names)
  have f: "idl_fans (idl st') = idl_fans i" by (simp add: i set_subsystem_fans_def)
  have us: "os_fans row = us" using assms(10,11) by (auto simp: i set_subsystem_fans_def)
  note l = init_rows_listed [OF assms(4,8) ns rows]
  then have "list_all2 (\<lambda>u n. \<exists>r \<in> set (idl_fans i). new_row u n r) us (full_names ?n ?fans)"
    and d: "distinct (map of_uuid (idl_fans i))" by simp_all
  with listed_distinct [OF d ns this(1)] show ?thesis
    by (simp add: us f full_names_def list.rel_map new_row_def)
qed

end
