(* ===== verification/Fand_Reconfigure.thy ===== *)
theory Fand_Reconfigure
  imports Subsystems_Add
begin

text \<open>
  \<open>fand_reconfigure\<close>: when the database has changed, every subsystem of the database is looked up or
  added, gets its speed from its temperature sensors and the configured override, and is marked; then
  the subsystems that are not marked are dropped.
\<close>

section \<open>The code\<close>

text \<open>Lines 531-538: the highest speed that a sensor of the subsystem asks for.\<close>

definition highest_speed :: "ovsrec_temp_sensor list \<Rightarrow> fanspeed" where
  "highest_speed sensors =
     fold (\<lambda>sensor highest.
       let speed = fan_speed_string_to_enum (ts_fan_state sensor)
       in if speed > highest then speed else highest) sensors FAND_SPEED_SLOW"

text \<open>Lines 530-554, for a subsystem that is not ignored.\<close>

definition configure_subsystem :: "('s, 'y, 'h) platform \<Rightarrow> ovsrec_subsystem \<Rightarrow> addr \<Rightarrow>
    ('s, 'y, 'h) fand \<Rightarrow> fault + ('s, 'y, 'h) fand" where
  "configure_subsystem P cfg a st =
     and_then (get_subsys a st) (\<lambda>ss.
       let ss = ss\<lparr>fan_speed := highest_speed (os_temp_sensors cfg)\<rparr>;
           override_value = fan_speed_string_to_enum (os_other_config cfg ''fan_speed_override'');
           ss = (if fan_speed_override ss \<noteq> override_value
                 then ss\<lparr>fan_speed_override := override_value\<rparr> else ss) in
       and_then (fand_set_fanspeed P a (put_subsys a ss st)) (\<lambda>st.
       and_then (fand_set_fanleds P a st) (\<lambda>st.
       and_then (get_subsys a st) (\<lambda>ss. Inr (put_subsys a (ss\<lparr>marked := True\<rparr>) st)))))"

definition reconfigure_subsystem :: "('s, 'y, 'h) platform \<Rightarrow> ovsrec_subsystem \<Rightarrow>
    ('s, 'y, 'h) fand \<Rightarrow> fault + ('s, 'y, 'h) fand" where
  "reconfigure_subsystem P cfg st =
     and_then (get_subsystem P cfg st) (\<lambda>(subsystem, st).
       case subsystem of
         None \<Rightarrow> Inr st
       | Some a \<Rightarrow> configure_subsystem P cfg a st)"

definition fand_reconfigure :: "('s, 'y, 'h) platform \<Rightarrow>
    ('s, 'y, 'h) fand \<Rightarrow> fault + ('s, 'y, 'h) fand" where
  "fand_reconfigure P st =
     (let new_idl_seqno = idl_get_seqno (idl st)
      in if new_idl_seqno = idl_seqno st then Inr st
         else
           and_then (fand_unmark_subsystems P (st\<lparr>idl_seqno := new_idl_seqno\<rparr>)) (\<lambda>st.
           and_then (foreach (reconfigure_subsystem P) (idl_subsystems (idl st)) st) (\<lambda>st.
             fand_remove_unmarked_subsystems P st)))"

section \<open>The highest speed\<close>

lemma highest_speed_max:
  "highest_speed sensors =
     fold max (map (\<lambda>t. fan_speed_string_to_enum (ts_fan_state t)) sensors) FAND_SPEED_SLOW"
proof -
  have "fold (\<lambda>sensor highest. let speed = fan_speed_string_to_enum (ts_fan_state sensor)
         in if speed > highest then speed else highest) sensors s =
      fold max (map (\<lambda>t. fan_speed_string_to_enum (ts_fan_state t)) sensors) s" for s
    by (induction sensors arbitrary: s) (simp_all add: Let_def)
  then show ?thesis by (simp add: highest_speed_def)
qed

lemma highest_speed_Max:
  "highest_speed sensors =
     Max (insert FAND_SPEED_SLOW ((\<lambda>t. fan_speed_string_to_enum (ts_fan_state t)) ` set sensors))"
  unfolding highest_speed_max by (simp add: Max.set_eq_fold [symmetric])

section \<open>One subsystem\<close>

text \<open>What a configured subsystem looks like.\<close>

definition configured :: "ovsrec_subsystem \<Rightarrow> 's locl_subsystem \<Rightarrow> 's locl_subsystem" where
  "configured cfg ss =
     (let ss = ss\<lparr>fan_speed := highest_speed (os_temp_sensors cfg),
                fan_speed_override := fan_speed_string_to_enum (os_other_config cfg ''fan_speed_override'')\<rparr>
      in ss\<lparr>speed := fand_choose_speed ss, marked := True\<rparr>)"

definition follows :: "ovsrec_subsystem \<Rightarrow> 's locl_subsystem \<Rightarrow> bool" where
  "follows cfg ss \<longleftrightarrow> ls_name ss = os_name cfg \<and> configured cfg ss = ss"

lemma configured_simps [simp]:
  "ls_name (configured cfg ss) = ls_name ss" "subsystem_fans (configured cfg ss) = subsystem_fans ss"
  "valid (configured cfg ss) = valid ss" "marked (configured cfg ss)"
  "fan_speed (configured cfg ss) = highest_speed (os_temp_sensors cfg)"
  "fan_speed_override (configured cfg ss) =
     fan_speed_string_to_enum (os_other_config cfg ''fan_speed_override'')"
  by (simp_all add: configured_def Let_def)

lemma configured_configured [simp]: "configured cfg (configured cfg ss) = configured cfg ss"
proof -
  have "fand_choose_speed (configured cfg ss\<lparr>fan_speed := s, fan_speed_override := v\<rparr>) =
      fand_choose_speed (ss\<lparr>fan_speed := s, fan_speed_override := v\<rparr>)" for s v
    by (rule choose_speed_cong) simp_all
  then show ?thesis by (cases ss) (simp add: configured_def Let_def)
qed

lemma configured_speed: "speed (configured cfg ss) = fand_choose_speed (configured cfg ss)"
  unfolding configured_def Let_def by (simp, rule choose_speed_cong) simp_all

text \<open>What the LEDs show depends on the fans and the description only.\<close>

lemma led_trace_cong:
  assumes "ls_name ss' = ls_name ss" "subsystem_fans ss' = subsystem_fans ss"
    "fan_mem st' = fan_mem st" "yaml_handle st' = yaml_handle st"
  shows "led_trace P ss' st' = led_trace P ss st"
proof -
  have 1: "fan_level P ss' st' = fan_level P ss st"
    unfolding fun_eq_iff fan_level_def local_fan_def assms by simp
  have 2: "fru_level P ss' st' = fru_level P ss st"
    unfolding fun_eq_iff fru_level_def assms 1 by simp
  show ?thesis unfolding led_trace_def fru_led_writes_def assms 2 ..
qed

lemma bus_op_put_subsys:
  "bus_op st es st' \<Longrightarrow> bus_op (put_subsys a ss st) es (put_subsys a ss st')"
proof -
  assume b: "bus_op st es st'"
  then obtain h es' where st': "st' = st\<lparr>hw := h, io := io st @ es'\<rparr>"
    by (auto simp: bus_op_def same_daemon_def)
  then have "put_subsys a ss st' = (put_subsys a ss st)\<lparr>hw := h, io := io (put_subsys a ss st) @ es'\<rparr>"
    by (simp add: put_subsys_def)
  then have "same_daemon (put_subsys a ss st) (put_subsys a ss st')" unfolding same_daemon_def by blast
  with b show ?thesis by (simp add: bus_op_def)
qed

lemma put_subsys_put_subsys [simp]: "put_subsys a ss (put_subsys a ss' st) = put_subsys a ss st"
  by (simp add: put_subsys_def)

text \<open>The state of a subsystem when the sensors and the override have been looked up.\<close>

definition asked :: "ovsrec_subsystem \<Rightarrow> 's locl_subsystem \<Rightarrow> 's locl_subsystem" where
  "asked cfg ss = ss\<lparr>fan_speed := highest_speed (os_temp_sensors cfg),
     fan_speed_override := fan_speed_string_to_enum (os_other_config cfg ''fan_speed_override'')\<rparr>"

lemma configured_asked:
  "configured cfg ss = (asked cfg ss)\<lparr>speed := fand_choose_speed (asked cfg ss), marked := True\<rparr>"
  by (simp add: configured_def asked_def Let_def)

lemma configure_subsystem_eq:
  assumes "subsys_mem st a = Some ss"
  shows "configure_subsystem P cfg a st =
    and_then (and_then (fand_set_fanspeed P a (put_subsys a (asked cfg ss) st)) (fand_set_fanleds P a))
      (\<lambda>s. and_then (get_subsys a s) (\<lambda>ss. Inr (put_subsys a (ss\<lparr>marked := True\<rparr>) s)))"
proof -
  let ?v = "fan_speed_string_to_enum (os_other_config cfg ''fan_speed_override'')"
  let ?h = "highest_speed (os_temp_sensors cfg)"
  have "(if fan_speed_override (ss\<lparr>fan_speed := ?h\<rparr>) \<noteq> ?v
      then ss\<lparr>fan_speed := ?h, fan_speed_override := ?v\<rparr> else ss\<lparr>fan_speed := ?h\<rparr>) = asked cfg ss"
    by (cases ss) (simp add: asked_def)
  then show ?thesis
    using assms by (cases "fand_set_fanspeed P a (put_subsys a (asked cfg ss) st)")
      (simp_all add: configure_subsystem_def get_subsys_def Let_def cong: if_cong)
qed

text \<open>The two hardware operations, through their contracts.\<close>

lemma speed_then_leds_post:
  assumes y: "yaml_ok P" and inv: "fand_inv P st" and ss: "subsys_mem st a = Some ss"
  shows "post {} (bus_op (put_subsys a (ss\<lparr>speed := fand_choose_speed ss\<rparr>) st)
      (speed_trace P (yaml_handle st) ss @ led_trace P ss st))
    (and_then (fand_set_fanspeed P a st) (fand_set_fanleds P a))"
proof (rule leds_op.then_post [where st = st and Q = "speed_effect P a st"])
  show "post {} (speed_effect P a st) (fand_set_fanspeed P a st)"
    by (rule speed_op.opn_post) (rule inv_speed_ok [OF y ss])
  show "leds_ok P a st" by (rule inv_leds_ok [OF y inv ss])
  show "hw_frame st s" if "speed_effect P a st s" for s using that by (rule speed_op.effect_frame)
next
  fix s s'
  let ?ss = "ss\<lparr>speed := fand_choose_speed ss\<rparr>"
  assume "speed_effect P a st s" and leds: "leds_effect P a s s'"
  then have s: "bus_op (put_subsys a ?ss st) (speed_trace P (yaml_handle st) ss) s"
    using ss by (simp add: speed_effect_def)
  then have f: "subsys_mem s a = Some ?ss" "fan_mem s = fan_mem st" "yaml_handle s = yaml_handle st"
    by (auto simp: bus_op_def dest: same_daemon_fields)
  from leds f(1) have "bus_op s (led_trace P ?ss s) s'" by (auto simp: leds_effect_def)
  moreover have "led_trace P ?ss s = led_trace P ss st" by (rule led_trace_cong) (simp_all add: f)
  ultimately show "bus_op (put_subsys a ?ss st) (speed_trace P (yaml_handle st) ss @ led_trace P ss st) s'"
    using bus_op_trans [OF s] by simp
qed

lemma configure_subsystem_post:
  assumes y: "yaml_ok P" and inv: "fand_inv P st" and ss: "subsys_mem st a = Some ss"
  shows "post {} (bus_op (put_subsys a (configured cfg ss) st)
      (speed_trace P (yaml_handle st) (configured cfg ss) @ led_trace P ss st))
    (configure_subsystem P cfg a st)"
proof -
  let ?ss1 = "asked cfg ss" and ?st1 = "put_subsys a (asked cfg ss) st"
  let ?tr = "speed_trace P (yaml_handle st) (configured cfg ss) @ led_trace P ss st"
  let ?ss2 = "?ss1\<lparr>speed := fand_choose_speed ?ss1\<rparr>"
  have "fand_inv P ?st1"
    by (rule fand_inv_put_subsys [OF inv ss]) (simp add: subsys_link_def asked_def)
  moreover have "speed_trace P (yaml_handle st) (configured cfg ss) = speed_trace P (yaml_handle st) ?ss1"
    by (rule speed_trace_cong) (simp_all add: asked_def)
  moreover have "led_trace P ?ss1 ?st1 = led_trace P ss st"
    by (rule led_trace_cong) (simp_all add: asked_def)
  ultimately have "post {} (bus_op (put_subsys a ?ss2 st) ?tr)
      (and_then (fand_set_fanspeed P a ?st1) (fand_set_fanleds P a))"
    using speed_then_leds_post [OF y, of ?st1 a ?ss1] by simp
  then show ?thesis unfolding configure_subsystem_eq [OF ss]
  proof (rule post_and_then)
    fix s assume s: "bus_op (put_subsys a ?ss2 st) ?tr s"
    then have "subsys_mem s a = Some ?ss2" by (auto simp: bus_op_def dest: same_daemon_fields)
    with bus_op_put_subsys [OF s, of a "configured cfg ss"]
    show "post {} (bus_op (put_subsys a (configured cfg ss) st) ?tr)
      (and_then (get_subsys a s) (\<lambda>ss. Inr (put_subsys a (ss\<lparr>marked := True\<rparr>) s)))"
      by (simp add: get_subsys_def configured_asked)
  qed
qed

section \<open>One row of the database\<close>

lemma follows_marked: "follows cfg ss \<Longrightarrow> marked ss"
  unfolding follows_def by (metis configured_simps(4))

lemma follows_configured: "ls_name ss = os_name cfg \<Longrightarrow> follows cfg (configured cfg ss)"
  by (simp add: follows_def)

text \<open>
  A row's effect on the table: one subsystem of the row's name, which follows the row if it is valid
  and is left alone or newly added, unmarked, if it is not.
\<close>

definition row_step :: "('s, 'y, 'h) platform \<Rightarrow> ovsrec_subsystem \<Rightarrow> ('s, 'y, 'h) fand \<Rightarrow>
    ('s, 'y, 'h) fand \<Rightarrow> bool" where
  "row_step P cfg st st' \<longleftrightarrow> fand_inv P st' \<and> idl_seqno st' = idl_seqno st \<and> cur_hw_set st' = cur_hw_set st \<and>
     (\<forall>p f. fan_mem st p = Some f \<longrightarrow> fan_mem st' p = Some f) \<and>
     (\<exists>a ss. subsys_mem st' a = Some ss \<and> ls_name ss = os_name cfg \<and>
        (\<forall>b. b \<noteq> a \<longrightarrow> subsys_mem st' b = subsys_mem st b) \<and>
        (\<forall>s0. subsys_mem st a = Some s0 \<longrightarrow> subsystem_fans ss = subsystem_fans s0 \<and>
           ls_name ss = ls_name s0 \<and> valid ss = valid s0) \<and>
        (subsys_mem st a = None \<longrightarrow> (valid ss \<or> shash_nodes P (subsystem_fans ss) = []) \<and>
           (loadable P cfg \<longrightarrow> valid ss)) \<and>
        (if valid ss then follows cfg ss
         else subsys_mem st a = Some ss \<or> subsys_mem st a = None \<and> \<not> marked ss))"

lemma row_step_invalid:
  assumes "subsys_got P cfg st (None, st1)"
  shows "row_step P cfg st st1"
proof -
  from assms obtain a ss where ss: "subsys_mem st1 a = Some ss" "ls_name ss = os_name cfg" "\<not> valid ss"
    and new: "subsys_mem st a = None \<longrightarrow> \<not> marked ss \<and> (valid ss \<or> shash_nodes P (subsystem_fans ss) = []) \<and>
      (loadable P cfg \<longrightarrow> valid ss)"
    and old: "\<forall>b s0. subsys_mem st b = Some s0 \<longrightarrow> subsys_mem st1 b = Some s0"
    and frame: "fand_inv P st1" "\<forall>b. b \<noteq> a \<longrightarrow> subsys_mem st1 b = subsys_mem st b"
      "\<forall>p f. fan_mem st p = Some f \<longrightarrow> fan_mem st1 p = Some f"
      "idl_seqno st1 = idl_seqno st" "cur_hw_set st1 = cur_hw_set st"
    unfolding subsys_got_def prod.case by (elim conjE exE) (rule that, simp_all split: if_splits)
  have "subsys_mem st a = Some ss \<or> subsys_mem st a = None \<and> \<not> marked ss"
    using old ss(1) new by (cases "subsys_mem st a") auto
  then show ?thesis unfolding row_step_def using ss new old frame
    by (intro conjI exI [of _ a] exI [of _ ss]) (auto split: option.splits)
qed

lemma row_step_configured:
  assumes "subsys_got P cfg st (Some a, st1)"
  shows "\<exists>ss. fand_inv P st1 \<and> subsys_mem st1 a = Some ss \<and>
    (\<forall>es st2. bus_op (put_subsys a (configured cfg ss) st1) es st2 \<longrightarrow> row_step P cfg st st2)"
proof -
  from assms obtain ss where inv: "fand_inv P st1"
    and ss: "subsys_mem st1 a = Some ss" "ls_name ss = os_name cfg" "valid ss"
    and old: "\<forall>b s0. subsys_mem st b = Some s0 \<longrightarrow> subsys_mem st1 b = Some s0"
    and frame: "\<forall>b. b \<noteq> a \<longrightarrow> subsys_mem st1 b = subsys_mem st b"
      "\<forall>p f. fan_mem st p = Some f \<longrightarrow> fan_mem st1 p = Some f"
      "idl_seqno st1 = idl_seqno st" "cur_hw_set st1 = cur_hw_set st"
    unfolding subsys_got_def prod.case by (elim conjE exE) (rule that, simp_all split: if_splits)
  let ?ss = "configured cfg ss"
  have "row_step P cfg st st2" if b: "bus_op (put_subsys a ?ss st1) es st2" for es st2
  proof -
    have "fand_inv P (put_subsys a ?ss st1)"
      by (rule fand_inv_put_subsys [OF inv ss(1)]) (simp add: subsys_link_def)
    with b have inv2: "fand_inv P st2" unfolding bus_op_def by (blast intro: fand_inv_links same_daemon_links)
    have f: "subsys_mem st2 = (subsys_mem st1)(a \<mapsto> ?ss)" "fan_mem st2 = fan_mem st1"
        "idl_seqno st2 = idl_seqno st1" "cur_hw_set st2 = cur_hw_set st1"
      using b by (auto simp: bus_op_def put_subsys_def dest: same_daemon_fields)
    have "\<forall>s0. subsys_mem st a = Some s0 \<longrightarrow> subsystem_fans ?ss = subsystem_fans s0 \<and>
        ls_name ?ss = ls_name s0 \<and> valid ?ss = valid s0"
      using old ss(1) by auto
    with inv2 ss frame follows_configured [OF ss(2)] show ?thesis
      unfolding row_step_def f by (intro conjI exI [of _ a] exI [of _ ?ss]) simp_all
  qed
  with inv ss(1) show ?thesis by blast
qed

lemma reconfigure_subsystem_post:
  assumes P: "shash_ok P" "yaml_ok P" "fan_names_ok P" and inv: "fand_inv P st"
  shows "post {} (row_step P cfg st) (reconfigure_subsystem P cfg st)"
  unfolding reconfigure_subsystem_def
  using get_subsystem_post [OF P inv, of cfg]
proof (rule post_and_then)
  fix x assume x: "subsys_got P cfg st x"
  obtain r st1 where x': "x = (r, st1)" by (cases x)
  show "post {} (row_step P cfg st) (case x of (None, st) \<Rightarrow> Inr st | (Some a, st) \<Rightarrow> configure_subsystem P cfg a st)"
  proof (cases r)
    case None
    with x row_step_invalid show ?thesis by (simp add: x')
  next
    case (Some a)
    with x have "subsys_got P cfg st (Some a, st1)" by (simp add: x')
    from row_step_configured [OF this] obtain ss where "fand_inv P st1" "subsys_mem st1 a = Some ss"
      and step: "\<And>es st2. bus_op (put_subsys a (configured cfg ss) st1) es st2 \<Longrightarrow> row_step P cfg st st2" by blast
    from configure_subsystem_post [OF P(2) this(1,2), of cfg]
    have "post {} (row_step P cfg st) (configure_subsystem P cfg a st1)" by (rule post_mono) (rule step)
    with Some show ?thesis by (simp add: x')
  qed
qed

section \<open>The whole operation\<close>

text \<open>The state when the rows of \<open>ds\<close> have been handled, from a state \<open>st0\<close> without marks.\<close>

definition rows_done :: "('s, 'y, 'h) platform \<Rightarrow> ('s, 'y, 'h) fand \<Rightarrow> ovsrec_subsystem set \<Rightarrow>
    ('s, 'y, 'h) fand \<Rightarrow> bool" where
  "rows_done P st0 ds st \<longleftrightarrow> fand_inv P st \<and> idl_seqno st = idl_seqno st0 \<and> cur_hw_set st = cur_hw_set st0 \<and>
     (\<forall>p f. fan_mem st0 p = Some f \<longrightarrow> fan_mem st p = Some f) \<and>
     (\<forall>a s0. subsys_mem st0 a = Some s0 \<longrightarrow> (\<exists>ss. subsys_mem st a = Some ss \<and>
        subsystem_fans ss = subsystem_fans s0 \<and> ls_name ss = ls_name s0 \<and> valid ss = valid s0)) \<and>
     (\<forall>a ss. subsys_mem st a = Some ss \<and> subsys_mem st0 a = None \<longrightarrow>
        ls_name ss \<in> os_name ` ds \<and> (valid ss \<or> shash_nodes P (subsystem_fans ss) = [])) \<and>
     (\<forall>cfg \<in> ds. \<exists>a ss. subsys_mem st a = Some ss \<and> ls_name ss = os_name cfg \<and>
        (subsys_mem st0 a = None \<and> loadable P cfg \<longrightarrow> valid ss)) \<and>
     (\<forall>a ss. subsys_mem st a = Some ss \<longrightarrow>
        (marked ss \<longrightarrow> valid ss \<and> (\<exists>cfg \<in> ds. follows cfg ss)) \<and>
        (valid ss \<and> ls_name ss \<in> os_name ` ds \<longrightarrow> marked ss))"

lemma row_step_old:
  assumes "row_step P cfg st st'" "subsys_mem st b = Some s"
  shows "\<exists>s'. subsys_mem st' b = Some s' \<and> subsystem_fans s' = subsystem_fans s \<and>
    ls_name s' = ls_name s \<and> valid s' = valid s"
  using assms unfolding row_step_def by metis

lemma row_step_new:
  assumes "row_step P cfg st st'" "subsys_mem st b = None" "subsys_mem st' b = Some s"
  shows "ls_name s = os_name cfg \<and> (valid s \<or> shash_nodes P (subsystem_fans s) = [])"
  using assms unfolding row_step_def by (metis option.inject option.distinct(1))

lemma rows_done_added:
  assumes d: "rows_done P st0 ds st" and step: "row_step P cfg st st'"
    and s: "subsys_mem st' b = Some s" and b: "subsys_mem st0 b = None"
  shows "ls_name s \<in> os_name ` insert cfg ds \<and> (valid s \<or> shash_nodes P (subsystem_fans s) = [])"
proof (cases "subsys_mem st b")
  case None
  from row_step_new [OF step None s] show ?thesis by simp
next
  case (Some s1)
  with d b have 1: "ls_name s1 \<in> os_name ` ds" "valid s1 \<or> shash_nodes P (subsystem_fans s1) = []"
    unfolding rows_done_def by blast+
  from row_step_old [OF step Some] s have "subsystem_fans s = subsystem_fans s1" "ls_name s = ls_name s1"
    "valid s = valid s1" by auto
  with 1 show ?thesis by simp
qed

lemma rows_done_marks:
  assumes d: "rows_done P st0 ds st" and new: "os_name cfg \<notin> os_name ` ds"
    and step: "row_step P cfg st st'" and s: "subsys_mem st' b = Some s"
  shows "(marked s \<longrightarrow> valid s \<and> (\<exists>c \<in> insert cfg ds. follows c s)) \<and>
    (valid s \<and> ls_name s \<in> os_name ` insert cfg ds \<longrightarrow> marked s)"
proof -
  from step obtain a ss where inv: "fand_inv P st'" and ss: "subsys_mem st' a = Some ss" "ls_name ss = os_name cfg"
    and other: "\<forall>b. b \<noteq> a \<longrightarrow> subsys_mem st' b = subsys_mem st b"
    and conf: "if valid ss then follows cfg ss else subsys_mem st a = Some ss \<or> subsys_mem st a = None \<and> \<not> marked ss"
    unfolding row_step_def by (elim conjE exE) (rule that)
  show ?thesis
  proof (cases "b = a")
    case True
    with s ss have "s = ss" by simp
    with conf ss(2) d show ?thesis
      by (auto simp: rows_done_def split: if_splits dest: follows_marked)
  next
    case False
    then have b: "subsys_mem st b = Some s" using other s by simp
    have "ls_name s \<noteq> os_name cfg"
      using inv_subsys_name_inject [OF inv s ss(1)] ss(2) False by auto
    with d b show ?thesis unfolding rows_done_def by auto
  qed
qed

lemma rows_done_blocks:
  assumes d: "rows_done P st0 ds st" and new: "os_name cfg \<notin> os_name ` ds"
    and step: "row_step P cfg st st'" and c: "c \<in> insert cfg ds"
  shows "\<exists>a ss. subsys_mem st' a = Some ss \<and> ls_name ss = os_name c \<and>
    (subsys_mem st0 a = None \<and> loadable P c \<longrightarrow> valid ss)"
proof (cases "c = cfg")
  case True
  from step obtain a ss where ss: "subsys_mem st' a = Some ss" "ls_name ss = os_name cfg"
    and load: "subsys_mem st a = None \<longrightarrow> loadable P cfg \<longrightarrow> valid ss"
    unfolding row_step_def by (elim conjE exE) (rule that, assumption, assumption, blast)
  have "subsys_mem st a = None" if a: "subsys_mem st0 a = None"
  proof (rule ccontr)
    assume "subsys_mem st a \<noteq> None"
    then obtain s1 where s1: "subsys_mem st a = Some s1" by blast
    with d a have "ls_name s1 \<in> os_name ` ds" unfolding rows_done_def by blast
    with row_step_old [OF step s1] ss new show False by auto
  qed
  with ss load True show ?thesis by (intro exI [of _ a] exI [of _ ss]) simp
next
  case False
  with c d obtain a ss where "subsys_mem st a = Some ss" "ls_name ss = os_name c"
    "subsys_mem st0 a = None \<and> loadable P c \<longrightarrow> valid ss" unfolding rows_done_def by blast
  with row_step_old [OF step] show ?thesis by metis
qed

lemma rows_done_step:
  assumes d: "rows_done P st0 ds st" and new: "os_name cfg \<notin> os_name ` ds"
    and step: "row_step P cfg st st'"
  shows "rows_done P st0 (insert cfg ds) st'"
proof -
  have links: "\<exists>ss. subsys_mem st' b = Some ss \<and> subsystem_fans ss = subsystem_fans s0 \<and>
      ls_name ss = ls_name s0 \<and> valid ss = valid s0" if "subsys_mem st0 b = Some s0" for b s0
  proof -
    from d that obtain s1 where s1: "subsys_mem st b = Some s1" "subsystem_fans s1 = subsystem_fans s0"
      "ls_name s1 = ls_name s0" "valid s1 = valid s0" unfolding rows_done_def by blast
    from row_step_old [OF step s1(1)] s1(2-4) show ?thesis by auto
  qed
  have "fand_inv P st'" "idl_seqno st' = idl_seqno st0" "cur_hw_set st' = cur_hw_set st0"
    "\<forall>p f. fan_mem st0 p = Some f \<longrightarrow> fan_mem st' p = Some f"
    using d step unfolding rows_done_def row_step_def by auto
  with links rows_done_marks [OF d new step] rows_done_added [OF d step] rows_done_blocks [OF d new step] show ?thesis
    unfolding rows_done_def by (intro conjI allI impI ballI) blast+
qed

lemma reconfigure_rows_post:
  assumes P: "shash_ok P" "yaml_ok P" "fan_names_ok P" and dist: "distinct (map os_name rows)"
    and start: "rows_done P st {} st"
  shows "post {} (rows_done P st (set rows)) (foreach (reconfigure_subsystem P) rows st)"
proof -
  let ?I = "\<lambda>todo. rows_done P st {c \<in> set rows. c \<notin> set todo}"
  have "post {} (?I ([] :: ovsrec_subsystem list)) (foreach (reconfigure_subsystem P) rows st)"
  proof (rule post_foreach_todo [where I = ?I])
    fix c cs s assume "\<exists>zs. rows = zs @ c # cs" and s: "?I (c # cs) s"
    then obtain zs where rows: "rows = zs @ c # cs" by blast
    have eq: "{c' \<in> set rows. c' \<notin> set cs} = insert c {c' \<in> set rows. c' \<notin> set (c # cs)}"
      and new: "os_name c \<notin> os_name ` {c' \<in> set rows. c' \<notin> set (c # cs)}"
      using dist by (auto simp: rows)
    have "fand_inv P s" using s by (simp add: rows_done_def)
    from reconfigure_subsystem_post [OF P this, of c]
    show "post {} (?I cs) (reconfigure_subsystem P c s)"
      by (rule post_mono) (use rows_done_step [OF s new] eq in simp)
  qed (use start in simp)
  then show ?thesis by simp
qed

lemma unmarked_start:
  assumes inv: "fand_inv P st" and u: "unmarked st {} st1"
  shows "rows_done P st1 {} st1" "fand_inv P st1"
proof -
  show i: "fand_inv P st1" using u inv by (auto simp: unmarked_def intro: fand_inv_links)
  show "rows_done P st1 {} st1" using i u by (auto simp: rows_done_def unmarked_def)
qed

text \<open>
  Only subsystems of the database remain, each valid and following its row; those that were valid and
  are still in the database remain with their fans.
\<close>

definition reconfigured :: "('s, 'y, 'h) platform \<Rightarrow> ('s, 'y, 'h) fand \<Rightarrow> ('s, 'y, 'h) fand \<Rightarrow> bool" where
  "reconfigured P st st' \<longleftrightarrow> fand_inv P st' \<and> idl_seqno st' = idl_get_seqno (idl st) \<and>
     cur_hw_set st' = cur_hw_set st \<and>
     (\<forall>a ss. subsys_mem st' a = Some ss \<longrightarrow>
        valid ss \<and> (\<exists>cfg \<in> set (idl_subsystems (idl st)). follows cfg ss)) \<and>
     (\<forall>cfg \<in> set (idl_subsystems (idl st)). loadable P cfg \<and>
        (\<forall>a ss. subsys_mem st a = Some ss \<and> ls_name ss = os_name cfg \<longrightarrow> valid ss) \<longrightarrow>
        (\<exists>a ss. subsys_mem st' a = Some ss \<and> ls_name ss = os_name cfg)) \<and>
     (\<forall>a ss. subsys_mem st a = Some ss \<and> valid ss \<and> ls_name ss \<in> os_name ` set (idl_subsystems (idl st)) \<longrightarrow>
        (\<exists>ss'. subsys_mem st' a = Some ss' \<and> ls_name ss' = ls_name ss \<and> subsystem_fans ss' = subsystem_fans ss)) \<and>
     (\<forall>p f. fan_mem st p = Some f \<and> subsys_mem st' (subsystem f) \<noteq> None \<longrightarrow> fan_mem st' p = Some f)"

text \<open>The three phases of a reconfiguration.\<close>

definition reconfigure_phases :: "('s, 'y, 'h) platform \<Rightarrow> ('s, 'y, 'h) fand \<Rightarrow> ('s, 'y, 'h) fand \<Rightarrow>
    ('s, 'y, 'h) fand \<Rightarrow> ('s, 'y, 'h) fand \<Rightarrow> bool" where
  "reconfigure_phases P st st1 st2 st3 \<longleftrightarrow>
     unmarked (st\<lparr>idl_seqno := idl_get_seqno (idl st)\<rparr>) {} st1 \<and>
     foreach (reconfigure_subsystem P) (idl_subsystems (idl st)) st1 = Inr st2 \<and>
     rows_done P st1 (set (idl_subsystems (idl st))) st2 \<and> swept P st2 [] st3"

lemma fand_reconfigure_phases:
  assumes P: "shash_ok P" "yaml_ok P" "fan_names_ok P" and inv: "fand_inv P st"
    and dist: "distinct (map os_name (idl_subsystems (idl st)))"
    and seqno: "idl_get_seqno (idl st) \<noteq> idl_seqno st"
  shows "post {} (\<lambda>st3. \<exists>st1 st2. reconfigure_phases P st st1 st2 st3) (fand_reconfigure P st)"
proof -
  let ?st0 = "st\<lparr>idl_seqno := idl_get_seqno (idl st)\<rparr>" and ?rows = "idl_subsystems (idl st)"
  have inv0: "fand_inv P ?st0" using inv by simp
  from post_total [OF unmark_post [OF inv0]] obtain st1
    where 1: "fand_unmark_subsystems P ?st0 = Inr st1" "unmarked ?st0 {} st1" by blast
  from post_total [OF reconfigure_rows_post [OF P dist unmarked_start(1) [OF inv0 1(2)]]] obtain st2
    where 2: "foreach (reconfigure_subsystem P) ?rows st1 = Inr st2" "rows_done P st1 (set ?rows) st2" by blast
  from 2(2) have "fand_inv P st2" by (simp add: rows_done_def)
  from post_total [OF sweep_post [OF P(1) this]] obtain st3
    where 3: "fand_remove_unmarked_subsystems P st2 = Inr st3" "swept P st2 [] st3" by blast
  have "idl st1 = idl st" using 1(2) by (simp add: unmarked_def same_env_def)
  with 1(1) 2(1) 3(1) seqno have "fand_reconfigure P st = Inr st3" by (simp add: fand_reconfigure_def)
  moreover have "reconfigure_phases P st st1 st2 st3" using 1(2) 2 3(2) by (simp add: reconfigure_phases_def)
  ultimately show ?thesis by auto
qed

lemma phases_reconfigured:
  assumes ph: "reconfigure_phases P st st1 st2 st3"
  shows "reconfigured P st st3"
proof -
  let ?rows = "idl_subsystems (idl st)"
  from ph have d: "rows_done P st1 (set ?rows) st2"
    and f1: "idl_seqno st1 = idl_get_seqno (idl st)" "cur_hw_set st1 = cur_hw_set st" "fan_mem st1 = fan_mem st"
      "\<And>a. subsys_mem st1 a = map_option (\<lambda>ss. ss\<lparr>marked := False\<rparr>) (subsys_mem st a)"
    and inv3: "fand_inv P st3" and env: "same_env st2 st3"
    and subs: "\<And>a. subsys_mem st3 a = opt_filter marked (subsys_mem st2 a)"
    and fans: "\<And>p. fan_mem st3 p = opt_filter (\<lambda>f. subsys_mem st3 (subsystem f) \<noteq> None) (fan_mem st2 p)"
    by (simp_all add: reconfigure_phases_def unmarked_def same_env_def swept_def)
  have kept: "\<exists>ss'. subsys_mem st3 a = Some ss' \<and> ls_name ss' = ls_name ss \<and> subsystem_fans ss' = subsystem_fans ss"
    if "subsys_mem st a = Some ss" "valid ss" "ls_name ss \<in> os_name ` set ?rows" for a ss
  proof -
    have "subsys_mem st1 a = Some (ss\<lparr>marked := False\<rparr>)" using that(1) f1(4) by simp
    with d obtain s2 where "subsys_mem st2 a = Some s2" "subsystem_fans s2 = subsystem_fans ss"
        "ls_name s2 = ls_name ss" "valid s2 = valid ss" by (force simp: rows_done_def)
    with d that(2,3) subs show ?thesis by (force simp: rows_done_def)
  qed
  have loaded: "\<exists>a ss. subsys_mem st3 a = Some ss \<and> ls_name ss = os_name cfg"
    if cfg: "cfg \<in> set ?rows" "loadable P cfg"
      and old: "\<forall>a ss. subsys_mem st a = Some ss \<and> ls_name ss = os_name cfg \<longrightarrow> valid ss" for cfg
  proof -
    from d cfg(1) obtain a ss where ss: "subsys_mem st2 a = Some ss" "ls_name ss = os_name cfg"
      and new: "subsys_mem st1 a = None \<and> loadable P cfg \<longrightarrow> valid ss" unfolding rows_done_def by blast
    have "valid ss"
    proof (cases "subsys_mem st1 a")
      case None
      with new cfg(2) show ?thesis by simp
    next
      case (Some s1)
      with d ss have "ls_name s1 = os_name cfg" "valid ss = valid s1" unfolding rows_done_def by fastforce+
      moreover from Some f1(4) [of a] obtain s0 where "subsys_mem st a = Some s0" "s1 = s0\<lparr>marked := False\<rparr>" by auto
      ultimately show ?thesis using old by simp
    qed
    with d ss cfg(1) have "marked ss" unfolding rows_done_def by blast
    with ss subs show ?thesis by auto
  qed
  have "fan_mem st3 p = Some f" if "fan_mem st p = Some f" "subsys_mem st3 (subsystem f) \<noteq> None" for p f
    using that d fans f1(3) by (force simp: rows_done_def)
  moreover have "valid ss \<and> (\<exists>cfg \<in> set ?rows. follows cfg ss)" if "subsys_mem st3 a = Some ss" for a ss
    using that d subs by (auto simp: rows_done_def)
  moreover have "idl_seqno st3 = idl_get_seqno (idl st)" "cur_hw_set st3 = cur_hw_set st"
    using d env f1 by (simp_all add: rows_done_def same_env_def)
  ultimately show ?thesis unfolding reconfigured_def using inv3 kept by (simp, blast intro: loaded)
qed

lemma fand_reconfigure_changed:
  assumes "shash_ok P" "yaml_ok P" "fan_names_ok P" "fand_inv P st"
    and "distinct (map os_name (idl_subsystems (idl st)))" "idl_get_seqno (idl st) \<noteq> idl_seqno st"
  shows "post {} (reconfigured P st) (fand_reconfigure P st)"
  by (rule post_mono [OF fand_reconfigure_phases [OF assms]]) (blast intro: phases_reconfigured)

text \<open>The invariant is kept also when the database holds a name twice.\<close>

lemma fand_reconfigure_inv:
  assumes P: "shash_ok P" "yaml_ok P" "fan_names_ok P" and inv: "fand_inv P st"
  shows "post {} (\<lambda>st'. fand_inv P st' \<and> cur_hw_set st' = cur_hw_set st) (fand_reconfigure P st)"
proof -
  let ?I = "\<lambda>st'. fand_inv P st' \<and> cur_hw_set st' = cur_hw_set st"
  let ?st0 = "st\<lparr>idl_seqno := idl_get_seqno (idl st)\<rparr>"
  have inv0: "fand_inv P ?st0" using inv by simp
  have "post {} ?I (and_then (fand_unmark_subsystems P ?st0) (\<lambda>st.
      and_then (foreach (reconfigure_subsystem P) (idl_subsystems (idl st)) st) (fand_remove_unmarked_subsystems P)))"
    using unmark_post [OF inv0]
  proof (rule post_and_then)
    fix st1 assume u: "unmarked ?st0 {} st1"
    then have "?I st1" using unmarked_start(2) [OF inv0 u] by (simp add: unmarked_def same_env_def)
    then have "post {} ?I (foreach (reconfigure_subsystem P) (idl_subsystems (idl st1)) st1)"
    proof (rule post_foreach)
      fix c s assume s: "?I s"
      from s have "fand_inv P s" by simp
      from reconfigure_subsystem_post [OF P this, of c] show "post {} ?I (reconfigure_subsystem P c s)"
        by (rule post_mono) (use s in \<open>simp add: row_step_def\<close>)
    qed
    then show "post {} ?I (and_then (foreach (reconfigure_subsystem P) (idl_subsystems (idl st1)) st1)
        (fand_remove_unmarked_subsystems P))"
    proof (rule post_and_then)
      fix st2 assume s: "?I st2"
      then have "fand_inv P st2" by simp
      from sweep_post [OF P(1) this] show "post {} ?I (fand_remove_unmarked_subsystems P st2)"
        by (rule post_mono) (use s in \<open>simp add: swept_def same_env_def\<close>)
    qed
  qed
  with inv show ?thesis by (simp add: fand_reconfigure_def Let_def)
qed

section \<open>Properties\<close>

text \<open>
  C4: a changed database. Without a fault, the remaining subsystems are exactly valid ones of the
  database's Subsystem table, each marked and with the sensor level, the override and the chosen speed
  that its row says; every subsystem that was valid and is still in the table is kept, at its address
  and with its table of fans, and the fans of the remaining subsystems are as they were; and a row whose
  description can be loaded has its subsystem, unless the table held an invalid one of that name.
\<close>

theorem reconfigure_effect:
  assumes "shash_ok P" "yaml_ok P" "fan_names_ok P" "fand_inv P st"
    and "distinct (map os_name (idl_subsystems (idl st)))"
    and "idl_get_seqno (idl st) \<noteq> idl_seqno st"
  shows "\<exists>st'. fand_reconfigure P st = Inr st' \<and> fand_inv P st' \<and> idl_seqno st' = idl_get_seqno (idl st) \<and>
    (\<forall>a ss. subsys_mem st' a = Some ss \<longrightarrow> valid ss \<and> marked ss \<and>
       (\<exists>cfg \<in> set (idl_subsystems (idl st)). ls_name ss = os_name cfg \<and>
          fan_speed ss = highest_speed (os_temp_sensors cfg) \<and>
          fan_speed_override ss = fan_speed_string_to_enum (os_other_config cfg ''fan_speed_override'') \<and>
          speed ss = fand_choose_speed ss)) \<and>
    (\<forall>cfg \<in> set (idl_subsystems (idl st)). loadable P cfg \<and>
       (\<forall>a ss. subsys_mem st a = Some ss \<and> ls_name ss = os_name cfg \<longrightarrow> valid ss) \<longrightarrow>
       (\<exists>a ss. subsys_mem st' a = Some ss \<and> ls_name ss = os_name cfg)) \<and>
    (\<forall>a ss. subsys_mem st a = Some ss \<and> valid ss \<and> ls_name ss \<in> os_name ` set (idl_subsystems (idl st)) \<longrightarrow>
       (\<exists>ss'. subsys_mem st' a = Some ss' \<and> ls_name ss' = ls_name ss \<and> subsystem_fans ss' = subsystem_fans ss)) \<and>
    (\<forall>p f. fan_mem st p = Some f \<and> subsys_mem st' (subsystem f) \<noteq> None \<longrightarrow> fan_mem st' p = Some f)"
proof -
  from post_total [OF fand_reconfigure_changed [OF assms]] obtain st'
    where st': "fand_reconfigure P st = Inr st'" and r: "reconfigured P st st'" by blast
  have follow: "marked ss \<and> ls_name ss = os_name cfg \<and> fan_speed ss = highest_speed (os_temp_sensors cfg) \<and>
      fan_speed_override ss = fan_speed_string_to_enum (os_other_config cfg ''fan_speed_override'') \<and>
      speed ss = fand_choose_speed ss" if "follows cfg ss" for cfg and ss :: "'a locl_subsystem"
  proof -
    from that have eq: "configured cfg ss = ss" "ls_name ss = os_name cfg" by (simp_all add: follows_def)
    show ?thesis using configured_simps(4-6) [of cfg ss] configured_speed [of cfg ss] eq(2)
      unfolding eq(1) by simp
  qed
  show ?thesis
    using st' r follow unfolding reconfigured_def by (intro exI [of _ st']) blast
qed

text \<open>
  C26: the sensor level of a subsystem is the highest level that a sensor asks for, and at least slow;
  a sensor without a reading or with an unknown one does not count.
\<close>

theorem highest_speed_is_max:
  "highest_speed sensors = Max (insert FAND_SPEED_SLOW
     {s. \<exists>t \<in> set sensors. s = fan_speed_string_to_enum (ts_fan_state t) \<and> s \<noteq> FAND_SPEED_NONE})"
proof -
  let ?S = "(\<lambda>t. fan_speed_string_to_enum (ts_fan_state t)) ` set sensors"
  have "{s. \<exists>t \<in> set sensors. s = fan_speed_string_to_enum (ts_fan_state t) \<and> s \<noteq> FAND_SPEED_NONE} =
      ?S - {FAND_SPEED_NONE}" by auto
  moreover have "Max (insert FAND_SPEED_SLOW ?S) = Max (insert FAND_SPEED_SLOW (?S - {FAND_SPEED_NONE}))"
  proof (rule antisym)
    have "FAND_SPEED_NONE \<le> FAND_SPEED_SLOW" by (simp add: less_eq_fanspeed_def)
    then have "x \<le> Max (insert FAND_SPEED_SLOW (?S - {FAND_SPEED_NONE}))" if "x \<in> insert FAND_SPEED_SLOW ?S" for x
      using that by (cases "x = FAND_SPEED_NONE") (auto intro: Max_ge order.trans)
    then show "Max (insert FAND_SPEED_SLOW ?S) \<le> Max (insert FAND_SPEED_SLOW (?S - {FAND_SPEED_NONE}))"
      by (intro Max.boundedI) simp_all
  qed (rule Max_mono, auto)
  ultimately show ?thesis by (simp add: highest_speed_Max)
qed

text \<open>
  C25: configuring a known subsystem does to the outside exactly this, in this order: it logs the level
  that its row asks for, writes the level's byte to the speed controls, and then writes the LEDs from
  the cached fan statuses; in the daemon only the subsystem's own block changes.
\<close>

theorem configure_subsystem_outside:
  assumes "yaml_ok P" "fand_inv P st" "subsys_mem st a = Some ss"
  shows "\<exists>st'. configure_subsystem P cfg a st = Inr st' \<and>
    subsys_mem st' = (subsys_mem st)(a \<mapsto> configured cfg ss) \<and> fan_mem st' = fan_mem st \<and> idl st' = idl st \<and>
    io st' = io st @ speed_trace P (yaml_handle st) (configured cfg ss) @ led_trace P ss st"
proof -
  from post_total [OF configure_subsystem_post [OF assms]] obtain st'
    where "configure_subsystem P cfg a st = Inr st'"
      and b: "bus_op (put_subsys a (configured cfg ss) st)
        (speed_trace P (yaml_handle st) (configured cfg ss) @ led_trace P ss st) st'" by blast
  moreover from b have "same_daemon (put_subsys a (configured cfg ss) st) st'" by (simp add: bus_op_def)
  note same_daemon_fields [OF this]
  ultimately show ?thesis by (simp add: bus_op_def)
qed

text \<open>
  C6: over-temperature safety. If one sensor of a subsystem asks for max, then configuring the subsystem
  puts it to max whatever the configured override says, and the first thing that it does is to log the
  level and write the description's max byte to every speed control.
\<close>

theorem overtemp_safety:
  assumes "yaml_ok P" "fand_inv P st" "subsys_mem st a = Some ss"
    and "t \<in> set (os_temp_sensors cfg)" "ts_fan_state t = Some ''max''"
    and "yaml_get_fan_info P (yaml_handle st) (ls_name ss) = Some info"
  shows "\<exists>st' v es. configure_subsystem P cfg a st = Inr st' \<and>
    map_option speed (subsys_mem st' a) = Some FAND_SPEED_MAX \<and>
    v = word_of_int (set_max (fan_speed_settings info)) \<and>
    io st' = io st @ FanSpeedEvent (ls_name ss) ''MAX'' v # speed_writes P (yaml_handle st) info (ls_name ss) v @ es"
proof -
  let ?S = "insert FAND_SPEED_SLOW ((\<lambda>t. fan_speed_string_to_enum (ts_fan_state t)) ` set (os_temp_sensors cfg))"
  have max: "fan_speed_string_to_enum (Some ''max'') = FAND_SPEED_MAX"
    by (simp add: fan_speed_string_to_enum_def fanspeed_string_def fanspeed_of_def)
  have "fan_speed_string_to_enum n \<le> FAND_SPEED_MAX" for n
    using speed_of_string_cases [of n] by (auto simp: less_eq_fanspeed_def)
  moreover have "FAND_SPEED_SLOW \<le> FAND_SPEED_MAX" by (simp add: less_eq_fanspeed_def)
  ultimately have "s \<le> FAND_SPEED_MAX" if "s \<in> ?S" for s using that by auto
  moreover have "FAND_SPEED_MAX \<in> ?S" using assms(4,5) max by (force intro: image_eqI [of _ _ t])
  ultimately have "Max ?S = FAND_SPEED_MAX" by (intro Max_eqI) auto
  then have high: "highest_speed (os_temp_sensors cfg) = FAND_SPEED_MAX" by (simp add: highest_speed_Max)
  then have choose: "fand_choose_speed (configured cfg ss) = FAND_SPEED_MAX"
    by (simp add: fand_choose_speed_def)
  from post_total [OF configure_subsystem_post [OF assms(1-3), of cfg]] obtain st'
    where run: "configure_subsystem P cfg a st = Inr st'"
      and b: "bus_op (put_subsys a (configured cfg ss) st)
        (speed_trace P (yaml_handle st) (configured cfg ss) @ led_trace P ss st) st'" by blast
  moreover from b have "same_daemon (put_subsys a (configured cfg ss) st) st'" by (simp add: bus_op_def)
  note same_daemon_fields [OF this]
  ultimately show ?thesis
    using choose configured_speed [of cfg ss] assms(6)
    by (simp add: bus_op_def speed_trace_def fand_speed_setting_def)
qed

end
