(* ===== verification/Fand_Status.thy ===== *)
theory Fand_Status
  imports Fand_Reconfigure
begin

text \<open>
  \<open>fand_read_status\<close> of \<open>fand.c\<close>: every fan is read from the hardware, then the rows of the database's
  Fan table are brought up to date, and the transaction is committed if a column changed.
\<close>

section \<open>The code\<close>

text \<open>Lines 435-442.\<close>

definition refresh_fan :: "('s, 'y, 'h) platform \<Rightarrow> addr \<Rightarrow> string \<times> addr \<Rightarrow>
    ('s, 'y, 'h) fand \<Rightarrow> fault + ('s, 'y, 'h) fand" where
  "refresh_fan P a fan_node st =
     and_then (get_subsys a st) (\<lambda>ss.
     and_then (get_fan (snd fan_node) st) (\<lambda>fan.
       fand_read_fan_status P (snd fan_node) (put_fan (snd fan_node) (fan\<lparr>lf_speed := speed ss\<rparr>) st)))"

definition refresh_subsystem :: "('s, 'y, 'h) platform \<Rightarrow> string \<times> addr \<Rightarrow>
    ('s, 'y, 'h) fand \<Rightarrow> fault + ('s, 'y, 'h) fand" where
  "refresh_subsystem P node st =
     and_then (get_subsys (snd node) st) (\<lambda>ss.
       foreach (refresh_fan P (snd node)) (shash_nodes P (subsystem_fans ss)) st)"

text \<open>A column is written when it differs; \<open>change\<close> is the flag of the C function.\<close>

definition set_column :: "('r \<Rightarrow> 'v) \<Rightarrow> ('v \<Rightarrow> 'r \<Rightarrow> 'r) \<Rightarrow> 'v \<Rightarrow> 'r \<times> bool \<Rightarrow> 'r \<times> bool" where
  "set_column col set_col v = (\<lambda>(row, change).
     if col row \<noteq> v then (set_col v row, True) else (row, change))"

text \<open>Lines 450-473. No node for the row's name means that a NULL node is dereferenced.\<close>

definition sync_fan_row :: "('s, 'y, 'h) platform \<Rightarrow> ('s, 'y, 'h) fand \<Rightarrow> ovsrec_fan \<Rightarrow> bool \<Rightarrow>
    fault + ovsrec_fan \<times> bool" where
  "sync_fan_row P st db_fan change =
     and_then (deref NullDeref (shash_find P (fan_data st) (of_name db_fan))) (\<lambda>fan_node.
     and_then (get_fan (snd fan_node) st) (\<lambda>fan.
       let r = (db_fan, change);
           r = set_column of_status (\<lambda>v. of_status_update (\<lambda>_. v)) (fan_status_enum_to_string (status fan)) r;
           r = set_column of_speed (\<lambda>v. of_speed_update (\<lambda>_. v)) (fan_speed_enum_to_string (lf_speed fan)) r;
           r = set_column of_direction (\<lambda>v. of_direction_update (\<lambda>_. v)) (direction fan) r
       in Inr (set_column of_rpm (\<lambda>v. of_rpm_update (\<lambda>_. v)) (Some (sint (rpm fan))) r)))"

primrec sync_fan_rows :: "('s, 'y, 'h) platform \<Rightarrow> ('s, 'y, 'h) fand \<Rightarrow> ovsrec_fan list \<Rightarrow> bool \<Rightarrow>
    fault + ovsrec_fan list \<times> bool" where
  "sync_fan_rows P st [] change = Inr ([], change)"
| "sync_fan_rows P st (db_fan # rows) change =
     and_then (sync_fan_row P st db_fan change) (\<lambda>(db_fan, change).
     and_then (sync_fan_rows P st rows change) (\<lambda>(rows, change).
       Inr (db_fan # rows, change)))"

text \<open>Lines 475-485: the first row of that name; \<open>None\<close> when there is none.\<close>

primrec set_cur_hw :: "ovsrec_daemon list \<Rightarrow> ovsrec_daemon list option" where
  "set_cur_hw [] = None"
| "set_cur_hw (d # ds) =
     (if od_name d = ''ops-fand'' then Some (d\<lparr>od_cur_hw := 1\<rparr> # ds)
      else map_option ((#) d) (set_cur_hw ds))"

definition first_cur_hw :: "bool \<times> ('s, 'y, 'h) fand \<Rightarrow> bool \<times> ('s, 'y, 'h) fand" where
  "first_cur_hw = (\<lambda>(change, st).
     if cur_hw_set st then (change, st)
     else case set_cur_hw (idl_daemons (idl st)) of
       None \<Rightarrow> (change, st)
     | Some ds \<Rightarrow> (True, st\<lparr>idl := (idl st)\<lparr>idl_daemons := ds\<rparr>, cur_hw_set := True\<rparr>))"

definition fand_read_status :: "('s, 'y, 'h) platform \<Rightarrow>
    ('s, 'y, 'h) fand \<Rightarrow> fault + ('s, 'y, 'h) fand" where
  "fand_read_status P st =
     and_then (foreach (refresh_subsystem P) (shash_nodes P (subsystem_data st)) st) (\<lambda>st.
       let before = idl st in
       and_then (sync_fan_rows P st (idl_fans (idl st)) False) (\<lambda>(rows, change).
         let (change, st) = first_cur_hw (change, st\<lparr>idl := (idl st)\<lparr>idl_fans := rows\<rparr>\<rparr>)
         in Inr (if change then commit_block P before st else st)))"

section \<open>Reading the fans\<close>

text \<open>A fan that has been read: its speed is its subsystem's, its readings are well formed.\<close>

definition refreshed :: "('s, 'y, 'h) fand \<Rightarrow> locl_fan \<Rightarrow> bool" where
  "refreshed st f \<longleftrightarrow> fan_wf f \<and> (\<exists>ss. subsys_mem st (subsystem f) = Some ss \<and> lf_speed f = speed ss)"

definition refresh_done :: "('s, 'y, 'h) platform \<Rightarrow> ('s, 'y, 'h) fand \<Rightarrow> addr set \<Rightarrow>
    ('s, 'y, 'h) fand \<Rightarrow> bool" where
  "refresh_done P st0 D st \<longleftrightarrow> fand_inv P st \<and> hw_frame st0 st \<and> subsys_mem st = subsys_mem st0 \<and>
     (\<forall>p \<in> D. \<forall>f. fan_mem st p = Some f \<longrightarrow> refreshed st0 f)"

lemma refresh_fan_post:
  assumes y: "yaml_ok P" and d: "refresh_done P st0 D st" and ss: "subsys_mem st a = Some ss"
    and nd: "(n, p) \<in> set (shash_nodes P (subsystem_fans ss))"
  shows "post {SignedOverflow} (refresh_done P st0 (D \<union> {p})) (refresh_fan P a (n, p) st)"
proof -
  have inv: "fand_inv P st" using d by (simp add: refresh_done_def)
  from inv_node_fan [OF inv ss nd] obtain f where f: "fan_mem st p = Some f" "subsystem f = a" by blast
  let ?f0 = "f\<lparr>lf_speed := speed ss\<rparr>"
  define st1 where "st1 = put_fan p ?f0 st"
  have fr1: "hw_frame st st1" unfolding st1_def by (rule hw_frame_put_fan [OF f(1)]) (simp add: fan_link_def)
  from fand_inv_frame [OF fr1 inv] have inv1: "fand_inv P st1" .
  have f1: "fan_mem st1 p = Some ?f0" by (simp add: st1_def)
  from read_op.inv_post [OF inv1 inv_read_ok [OF y inv1 f1]]
  have "post {SignedOverflow} (refresh_done P st0 (D \<union> {p})) (fand_read_fan_status P p st1)"
  proof (rule post_mono)
    fix st2 assume 2: "read_effect P p st1 st2 \<and> hw_frame st1 st2 \<and> fand_inv P st2"
    then obtain f' where f': "f' = ?f0\<lparr>direction := direction f', rpm := rpm f', status := status f'\<rparr>"
      and wf: "fan_wf f'" and sd: "same_daemon (put_fan p f' st1) st2"
      unfolding read_effect_def fan_refreshed_def f1 by blast
    have "lf_speed f' = speed ss" "subsystem f' = a"
      using arg_cong [OF f', of lf_speed] arg_cong [OF f', of subsystem] f(2) by simp_all
    then have "refreshed st0 f'" using wf ss d by (simp add: refreshed_def refresh_done_def)
    moreover have "fan_mem st2 = (fan_mem st)(p \<mapsto> f')" "subsys_mem st2 = subsys_mem st"
      using same_daemon_fields [OF sd] by (simp_all add: st1_def)
    ultimately show "refresh_done P st0 (D \<union> {p}) st2"
      using d 2 hw_frame_trans [OF hw_frame_trans [OF _ fr1]] by (auto simp: refresh_done_def)
  qed
  with f(1) ss show ?thesis by (simp add: refresh_fan_def get_subsys_def get_fan_def st1_def)
qed

lemma refresh_subsystem_post:
  assumes y: "yaml_ok P" and d: "refresh_done P st0 D st" and ss: "subsys_mem st0 (snd nd) = Some ss"
  shows "post {SignedOverflow} (refresh_done P st0 (D \<union> snd ` set (shash_nodes P (subsystem_fans ss))))
    (refresh_subsystem P nd st)"
proof -
  have "post {SignedOverflow} (refresh_done P st0 (D \<union> (\<Union>x \<in> set (shash_nodes P (subsystem_fans ss)). {snd x})))
      (foreach (refresh_fan P (snd nd)) (shash_nodes P (subsystem_fans ss)) st)"
  proof (rule post_foreach_acc [where I = "refresh_done P st0", OF _ d])
    fix x E s assume x: "x \<in> set (shash_nodes P (subsystem_fans ss))" and s: "refresh_done P st0 E s"
    obtain n p where xx: "x = (n, p)" by (cases x)
    have "subsys_mem s (snd nd) = Some ss" using s ss by (simp add: refresh_done_def)
    from refresh_fan_post [OF y s this, of n p] x
    show "post {SignedOverflow} (refresh_done P st0 (E \<union> {snd x})) (refresh_fan P (snd nd) x s)"
      by (simp add: xx)
  qed
  moreover have "(\<Union>x \<in> set (shash_nodes P (subsystem_fans ss)). {snd x}) = snd ` set (shash_nodes P (subsystem_fans ss))"
    by auto
  ultimately show ?thesis using d ss by (simp add: refresh_subsystem_def get_subsys_def refresh_done_def)
qed

lemma refresh_all_post:
  assumes y: "yaml_ok P" and inv: "fand_inv P st"
  shows "post {SignedOverflow} (\<lambda>st'. fand_inv P st' \<and> hw_frame st st' \<and> subsys_mem st' = subsys_mem st \<and>
      (\<forall>p f. fan_mem st' p = Some f \<longrightarrow> refreshed st' f))
    (foreach (refresh_subsystem P) (shash_nodes P (subsystem_data st)) st)"
proof -
  let ?g = "\<lambda>nd. case subsys_mem st (snd nd) of None \<Rightarrow> {} | Some ss \<Rightarrow> snd ` set (shash_nodes P (subsystem_fans ss))"
  have "refresh_done P st {} st" using inv by (simp add: refresh_done_def)
  then have "post {SignedOverflow} (refresh_done P st ({} \<union> (\<Union>nd \<in> set (shash_nodes P (subsystem_data st)). ?g nd)))
     (foreach (refresh_subsystem P) (shash_nodes P (subsystem_data st)) st)"
  proof (rule post_foreach_acc [where I = "refresh_done P st", rotated])
    fix nd D s assume nd: "nd \<in> set (shash_nodes P (subsystem_data st))" and s: "refresh_done P st D s"
    from inv_node_subsys [OF inv, of "fst nd" "snd nd"] nd obtain ss where ss: "subsys_mem st (snd nd) = Some ss" by auto
    from refresh_subsystem_post [OF y s ss]
    show "post {SignedOverflow} (refresh_done P st (D \<union> ?g nd)) (refresh_subsystem P nd s)" by (simp add: ss)
  qed
  then show ?thesis
  proof (rule post_mono)
    fix st' assume d: "refresh_done P st ({} \<union> (\<Union>nd \<in> set (shash_nodes P (subsystem_data st)). ?g nd)) st'"
    have "refreshed st' f" if f: "fan_mem st' p = Some f" for p f
    proof -
      have i: "fand_inv P st'" and m: "subsys_mem st' = subsys_mem st" using d by (simp_all add: refresh_done_def)
      from i f obtain ss where ss: "subsys_mem st' (subsystem f) = Some ss" by (force simp: fand_inv_def subsystem_fans_ok_def)
      then have "(lf_name f, p) \<in> set (shash_nodes P (subsystem_fans ss))"
        using i f by (auto simp: fand_inv_def subsystem_fans_ok_def)
      then have "p \<in> ?g (ls_name ss, subsystem f)" using ss m by force
      moreover have "(ls_name ss, subsystem f) \<in> set (shash_nodes P (subsystem_data st))"
        using inv_subsys_node [OF inv] ss m by simp
      ultimately have "refreshed st f" using d f unfolding refresh_done_def by blast
      then show ?thesis by (simp add: refreshed_def m)
    qed
    with d show "fand_inv P st' \<and> hw_frame st st' \<and> subsys_mem st' = subsys_mem st \<and>
      (\<forall>p f. fan_mem st' p = Some f \<longrightarrow> refreshed st' f)" by (auto simp: refresh_done_def)
  qed
qed

section \<open>Columns\<close>

text \<open>
  What the generated accessors of a column promise: a written value is read back, and writing the value
  a row already has changes nothing. Then \<open>set_column\<close> is an unconditional write that also reports
  whether the row changed.
\<close>

locale column =
  fixes col :: "'r \<Rightarrow> 'v" and set_col :: "'v \<Rightarrow> 'r \<Rightarrow> 'r"
  assumes col_set: "col (set_col v r) = v"
    and set_same: "set_col (col r) r = r"
begin

lemma set_column_eq: "set_column col set_col v (r, change) = (set_col v r, change \<or> set_col v r \<noteq> r)"
proof (cases "col r = v")
  case True
  then show ?thesis using set_same [of r] by (simp add: set_column_def)
next
  case False
  then have "set_col v r \<noteq> r" using col_set [of v r] by auto
  with False show ?thesis by (simp add: set_column_def)
qed

end

interpretation status_col: column of_status "\<lambda>v. of_status_update (\<lambda>_. v)"
  by unfold_locales auto

interpretation speed_col: column of_speed "\<lambda>v. of_speed_update (\<lambda>_. v)"
  by unfold_locales auto

interpretation direction_col: column of_direction "\<lambda>v. of_direction_update (\<lambda>_. v)"
  by unfold_locales auto

interpretation rpm_col: column of_rpm "\<lambda>v. of_rpm_update (\<lambda>_. v)"
  by unfold_locales auto

lemmas column_eqs = status_col.set_column_eq speed_col.set_column_eq direction_col.set_column_eq
  rpm_col.set_column_eq

section \<open>Writing the rows\<close>

text \<open>The row that shows a fan.\<close>

definition fan_row_of :: "locl_fan \<Rightarrow> ovsrec_fan \<Rightarrow> ovsrec_fan" where
  "fan_row_of f r = r\<lparr>of_speed := fan_speed_enum_to_string (lf_speed f), of_direction := direction f,
     of_status := fan_status_enum_to_string (status f), of_rpm := Some (sint (rpm f))\<rparr>"

definition row_fan :: "('s, 'y, 'h) platform \<Rightarrow> ('s, 'y, 'h) fand \<Rightarrow> ovsrec_fan \<Rightarrow> locl_fan option" where
  "row_fan P st r = Option.bind (shash_find P (fan_data st) (of_name r)) (\<lambda>nd. fan_mem st (snd nd))"

definition mirror :: "('s, 'y, 'h) platform \<Rightarrow> ('s, 'y, 'h) fand \<Rightarrow> ovsrec_fan \<Rightarrow> ovsrec_fan" where
  "mirror P st r = (case row_fan P st r of None \<Rightarrow> r | Some f \<Rightarrow> fan_row_of f r)"

lemma sync_fan_row_eq:
  assumes "row_fan P st r = Some f"
  shows "sync_fan_row P st r change = Inr (fan_row_of f r, change \<or> fan_row_of f r \<noteq> r)"
proof -
  from assms obtain nd where "shash_find P (fan_data st) (of_name r) = Some nd" "fan_mem st (snd nd) = Some f"
    by (auto simp: row_fan_def bind_eq_Some_conv)
  moreover have "fan_row_of f r = r\<lparr>of_status := fan_status_enum_to_string (status f),
      of_speed := fan_speed_enum_to_string (lf_speed f), of_direction := direction f, of_rpm := Some (sint (rpm f))\<rparr>"
    by (cases r) (simp add: fan_row_of_def)
  ultimately show ?thesis
    by (cases r) (auto simp: sync_fan_row_def get_fan_def Let_def column_eqs)
qed

lemma sync_fan_rows_eq:
  assumes "\<forall>r \<in> set rows. row_fan P st r \<noteq> None"
  shows "sync_fan_rows P st rows change =
    Inr (map (mirror P st) rows, change \<or> map (mirror P st) rows \<noteq> rows)"
  using assms
proof (induction rows arbitrary: change)
  case (Cons r rows)
  then obtain f where f: "row_fan P st r = Some f" by auto
  with Cons show ?case by (auto simp: sync_fan_row_eq [OF f] mirror_def)
qed simp

text \<open>A row that no fan of the daemon has the name of.\<close>

lemma sync_fan_rows_unknown:
  assumes "\<exists>r \<in> set rows. shash_find P (fan_data st) (of_name r) = None"
    and "\<forall>r \<in> set rows. shash_find P (fan_data st) (of_name r) \<noteq> None \<longrightarrow> row_fan P st r \<noteq> None"
  shows "sync_fan_rows P st rows change = Inl NullDeref"
  using assms
proof (induction rows arbitrary: change)
  case (Cons r rows)
  show ?case
  proof (cases "shash_find P (fan_data st) (of_name r)")
    case None
    then show ?thesis by (simp add: sync_fan_row_def)
  next
    case (Some nd)
    with Cons.prems obtain f where f: "row_fan P st r = Some f" by auto
    from Some Cons show ?thesis by (simp add: sync_fan_row_eq [OF f])
  qed
qed simp

section \<open>The whole operation\<close>

definition rows_known :: "('s, 'y, 'h) platform \<Rightarrow> ('s, 'y, 'h) fand \<Rightarrow> bool" where
  "rows_known P st \<longleftrightarrow> of_name ` set (idl_fans (idl st)) \<subseteq> fst ` set (shash_nodes P (fan_data st))"

lemma row_fan_inv:
  assumes P: "shash_ok P" and inv: "fand_inv P st"
  shows "shash_find P (fan_data st) (of_name r) \<noteq> None \<longrightarrow> row_fan P st r \<noteq> None"
    and "of_name r \<in> fst ` set (shash_nodes P (fan_data st)) \<Longrightarrow>
      \<exists>p f. fan_mem st p = Some f \<and> lf_name f = of_name r \<and> row_fan P st r = Some f"
proof -
  show 2: "\<exists>p f. fan_mem st p = Some f \<and> lf_name f = of_name r \<and> row_fan P st r = Some f"
    if "of_name r \<in> fst ` set (shash_nodes P (fan_data st))"
  proof -
    from that obtain p where p: "(of_name r, p) \<in> set (shash_nodes P (fan_data st))" by force
    have "shash_find P (fan_data st) (of_name r) = Some (of_name r, p)"
      using inv p by (intro find_unique [OF P]) (auto simp: fand_inv_def fan_table_ok_def)
    with inv_fan_data_fan [OF inv p] show ?thesis by (auto simp: row_fan_def)
  qed
  show "shash_find P (fan_data st) (of_name r) \<noteq> None \<longrightarrow> row_fan P st r \<noteq> None"
  proof
    assume "shash_find P (fan_data st) (of_name r) \<noteq> None"
    then have "of_name r \<in> fst ` set (shash_nodes P (fan_data st))"
      by (simp only: find_None [OF P] not_not)
    from 2 [OF this] show "row_fan P st r \<noteq> None" by auto
  qed
qed

text \<open>What the replica holds when the writes are staged, and whether the flag \<open>change\<close> is set.\<close>

definition staged_rows :: "('s, 'y, 'h) platform \<Rightarrow> ('s, 'y, 'h) fand \<Rightarrow> ovsdb_idl \<Rightarrow> ovsdb_idl" where
  "staged_rows P st i = i\<lparr>idl_fans := map (mirror P st) (idl_fans i)\<rparr>"

definition sets_cur_hw :: "('s, 'y, 'h) fand \<Rightarrow> bool" where
  "sets_cur_hw st \<longleftrightarrow> \<not> cur_hw_set st \<and> set_cur_hw (idl_daemons (idl st)) \<noteq> None"

definition staged :: "('s, 'y, 'h) platform \<Rightarrow> ('s, 'y, 'h) fand \<Rightarrow> ('s, 'y, 'h) fand \<Rightarrow> ovsdb_idl" where
  "staged P st st' = (let i = staged_rows P st' (idl st) in
     if sets_cur_hw st then i\<lparr>idl_daemons := the (set_cur_hw (idl_daemons (idl st)))\<rparr> else i)"

definition status_read :: "('s, 'y, 'h) platform \<Rightarrow> ('s, 'y, 'h) fand \<Rightarrow> ('s, 'y, 'h) fand \<Rightarrow> bool" where
  "status_read P st st' \<longleftrightarrow> rows_known P st \<and> fand_inv P st' \<and> same_links st st' \<and>
     subsys_mem st' = subsys_mem st \<and> idl_seqno st' = idl_seqno st \<and>
     (\<forall>p f. fan_mem st' p = Some f \<longrightarrow> refreshed st' f) \<and>
     cur_hw_set st' = (cur_hw_set st \<or> sets_cur_hw st) \<and>
     idl st' = (if staged_rows P st' (idl st) \<noteq> idl st \<or> sets_cur_hw st
       then txn_commit_block P (idl st) (staged P st st') else idl st)"

lemma staged_cong:
  assumes "mirror P s = mirror P s'"
  shows "staged_rows P s i = staged_rows P s' i" "staged P st s = staged P st s'"
  unfolding staged_def staged_rows_def assms by simp_all

lemma first_cur_hw_eq:
  "first_cur_hw (change, st) = (change \<or> sets_cur_hw st,
     if sets_cur_hw st then st\<lparr>idl := (idl st)\<lparr>idl_daemons := the (set_cur_hw (idl_daemons (idl st)))\<rparr>,
       cur_hw_set := True\<rparr> else st)"
  by (cases "set_cur_hw (idl_daemons (idl st))") (simp_all add: first_cur_hw_def sets_cur_hw_def)

lemma mirror_other [simp]:
  "mirror P (st\<lparr>idl := i\<rparr>) = mirror P st" "mirror P (st\<lparr>cur_hw_set := b\<rparr>) = mirror P st"
  "mirror P (commit_block P' i st) = mirror P st"
  by (simp_all add: fun_eq_iff mirror_def row_fan_def commit_block_def)

lemma refreshed_other [simp]:
  "refreshed (st\<lparr>idl := i\<rparr>) = refreshed st" "refreshed (st\<lparr>cur_hw_set := b\<rparr>) = refreshed st"
  "refreshed (commit_block P' i st) = refreshed st"
  by (simp_all add: fun_eq_iff refreshed_def commit_block_def)

text \<open>The second half of the operation, when every row has a fan: the writes, then the commit.\<close>

definition status_written :: "('s, 'y, 'h) platform \<Rightarrow> ('s, 'y, 'h) fand \<Rightarrow> ('s, 'y, 'h) fand" where
  "status_written P st =
     (let st' = st\<lparr>idl := staged P st st, cur_hw_set := cur_hw_set st \<or> sets_cur_hw st\<rparr>
      in if staged_rows P st (idl st) \<noteq> idl st \<or> sets_cur_hw st then commit_block P (idl st) st' else st')"

lemma write_status_eq:
  assumes "\<forall>r \<in> set (idl_fans (idl st)). row_fan P st r \<noteq> None"
  shows "(let before = idl st in and_then (sync_fan_rows P st (idl_fans (idl st)) False) (\<lambda>(rows, change).
      let (change, st) = first_cur_hw (change, st\<lparr>idl := (idl st)\<lparr>idl_fans := rows\<rparr>\<rparr>)
      in Inr (if change then commit_block P before st else st))) = Inr (status_written P st)"
proof -
  let ?rows = "map (mirror P st) (idl_fans (idl st))"
  have st2: "st\<lparr>idl := (idl st)\<lparr>idl_fans := ?rows\<rparr>\<rparr> = st\<lparr>idl := staged_rows P st (idl st)\<rparr>" (is "_ = ?st2")
    by (simp add: staged_rows_def)
  have sets: "sets_cur_hw ?st2 = sets_cur_hw st" by (simp add: sets_cur_hw_def staged_rows_def)
  have ch: "?rows \<noteq> idl_fans (idl st) \<longleftrightarrow> staged_rows P st (idl st) \<noteq> idl st"
    by (cases "idl st") (simp add: staged_rows_def)
  have "(if sets_cur_hw st then ?st2\<lparr>idl := (idl ?st2)\<lparr>idl_daemons := the (set_cur_hw (idl_daemons (idl ?st2)))\<rparr>,
      cur_hw_set := True\<rparr> else ?st2) = st\<lparr>idl := staged P st st, cur_hw_set := cur_hw_set st \<or> sets_cur_hw st\<rparr>"
    by (cases "sets_cur_hw st") (simp_all add: staged_def staged_rows_def Let_def)
  then have "first_cur_hw (False \<or> ?rows \<noteq> idl_fans (idl st), ?st2) = (staged_rows P st (idl st) \<noteq> idl st \<or> sets_cur_hw st,
      st\<lparr>idl := staged P st st, cur_hw_set := cur_hw_set st \<or> sets_cur_hw st\<rparr>)"
    by (simp only: first_cur_hw_eq sets ch simp_thms)
  then show ?thesis
    unfolding Let_def sync_fan_rows_eq [OF assms, of False] and_then_simps prod.case st2 status_written_def
    by (simp only: prod.case)
qed

lemma status_written_simps [simp]:
  "fand_inv P (status_written P' st) = fand_inv P st" "same_links st0 (status_written P' st) = same_links st0 st"
  "subsys_mem (status_written P' st) = subsys_mem st" "fan_mem (status_written P' st) = fan_mem st"
  "idl_seqno (status_written P' st) = idl_seqno st" "refreshed (status_written P' st) = refreshed st"
  "mirror P (status_written P' st) = mirror P st"
  "cur_hw_set (status_written P' st) = (cur_hw_set st \<or> sets_cur_hw st)"
  by (simp_all add: status_written_def Let_def same_links_def commit_block_def fun_eq_iff refreshed_def
      mirror_def row_fan_def)

lemma idl_status_written:
  "idl (status_written P st) = (if staged_rows P st (idl st) \<noteq> idl st \<or> sets_cur_hw st
     then txn_commit_block P (idl st) (staged P st st) else idl st)"
  by (auto simp: status_written_def staged_def Let_def commit_block_def)

lemma fand_read_status_known:
  assumes P: "shash_ok P" "yaml_ok P" and inv: "fand_inv P st" and known: "rows_known P st"
  shows "post {SignedOverflow} (status_read P st) (fand_read_status P st)"
  unfolding fand_read_status_def using refresh_all_post [OF P(2) inv]
proof (rule post_and_then)
  fix st1
  assume "fand_inv P st1 \<and> hw_frame st st1 \<and> subsys_mem st1 = subsys_mem st \<and>
    (\<forall>p f. fan_mem st1 p = Some f \<longrightarrow> refreshed st1 f)"
  then have inv1: "fand_inv P st1" and links: "same_links st st1" and db: "same_db st st1"
    and m: "subsys_mem st1 = subsys_mem st" and fans: "\<forall>p f. fan_mem st1 p = Some f \<longrightarrow> refreshed st1 f"
    by (simp_all add: hw_frame_def)
  have e: "idl st1 = idl st" "idl_seqno st1 = idl_seqno st" "cur_hw_set st1 = cur_hw_set st" "fan_data st1 = fan_data st"
    using db links by (simp_all add: same_db_def same_links_def)
  have "\<forall>r \<in> set (idl_fans (idl st1)). row_fan P st1 r \<noteq> None"
  proof
    fix r assume "r \<in> set (idl_fans (idl st1))"
    then have "of_name r \<in> fst ` set (shash_nodes P (fan_data st1))"
      using known by (auto simp: rows_known_def e)
    from row_fan_inv(2) [OF P(1) inv1 this] show "row_fan P st1 r \<noteq> None" by auto
  qed
  note run = write_status_eq [OF this]
  have mir: "mirror P (status_written P st1) = mirror P st1" by simp
  have sets: "sets_cur_hw st1 = sets_cur_hw st" "staged P st1 st1 = staged P st st1"
    by (simp_all add: sets_cur_hw_def staged_def Let_def e)
  have "status_read P st (status_written P st1)"
    unfolding status_read_def staged_cong [OF mir]
    using known inv1 links m fans e sets by (simp add: idl_status_written)
  then show "post {SignedOverflow} (status_read P st) (let before = idl st1 in
      and_then (sync_fan_rows P st1 (idl_fans (idl st1)) False) (\<lambda>(rows, change).
        let (change, st) = first_cur_hw (change, st1\<lparr>idl := (idl st1)\<lparr>idl_fans := rows\<rparr>\<rparr>)
        in Inr (if change then commit_block P before st else st)))" unfolding run by simp
qed

text \<open>A row of the Fan table that the daemon has no fan for makes the operation fault.\<close>

lemma fand_read_status_unknown:
  assumes P: "shash_ok P" "yaml_ok P" and inv: "fand_inv P st" and unknown: "\<not> rows_known P st"
  shows "post {SignedOverflow, NullDeref} (\<lambda>_. False) (fand_read_status P st)"
proof -
  have "post {SignedOverflow, NullDeref} (\<lambda>st'. fand_inv P st' \<and> hw_frame st st')
    (foreach (refresh_subsystem P) (shash_nodes P (subsystem_data st)) st)"
    using refresh_all_post [OF P(2) inv] by (rule post_weaken) auto
  then show ?thesis
    unfolding fand_read_status_def
  proof (rule post_and_then)
    fix st1 assume "fand_inv P st1 \<and> hw_frame st st1"
    then have inv1: "fand_inv P st1" and e: "idl st1 = idl st" "fan_data st1 = fan_data st"
      by (simp_all add: hw_frame_def same_db_def same_links_def)
    from unknown obtain r where r: "r \<in> set (idl_fans (idl st1))"
      "of_name r \<notin> fst ` set (shash_nodes P (fan_data st1))" by (auto simp: rows_known_def e)
    have "sync_fan_rows P st1 (idl_fans (idl st1)) False = Inl NullDeref"
    proof (rule sync_fan_rows_unknown)
      have "shash_find P (fan_data st1) (of_name r) = None"
        using r(2) by (simp only: find_None [OF P(1)] not_False_eq_True)
      with r(1) show "\<exists>r \<in> set (idl_fans (idl st1)). shash_find P (fan_data st1) (of_name r) = None" by blast
    qed (use row_fan_inv(1) [OF P(1) inv1] in blast)
    then show "post {SignedOverflow, NullDeref} (\<lambda>_. False) (let before = idl st1 in
      and_then (sync_fan_rows P st1 (idl_fans (idl st1)) False) (\<lambda>(rows, change).
        let (change, st) = first_cur_hw (change, st1\<lparr>idl := (idl st1)\<lparr>idl_fans := rows\<rparr>\<rparr>)
        in Inr (if change then commit_block P before st else st)))" by simp
  qed
qed

lemma fand_read_status_post:
  assumes P: "shash_ok P" "yaml_ok P" and inv: "fand_inv P st"
  shows "post ({SignedOverflow} \<union> (if rows_known P st then {} else {NullDeref})) (status_read P st)
    (fand_read_status P st)"
proof (cases "rows_known P st")
  case True
  with fand_read_status_known [OF P inv] show ?thesis by simp
next
  case False
  from fand_read_status_unknown [OF P inv False] show ?thesis
    by (rule post_weaken) (auto simp: False)
qed

text \<open>A row after a successful run of the operation with a commit that succeeds.\<close>

lemma mirror_row:
  assumes P: "shash_ok P" and read: "status_read P st st'" and r: "r \<in> set (idl_fans (idl st))"
  shows "\<exists>p f. fan_mem st' p = Some f \<and> lf_name f = of_name r \<and> mirror P st' r = fan_row_of f r"
proof -
  have inv: "fand_inv P st'" and d: "fan_data st' = fan_data st" "rows_known P st"
    using read by (simp_all add: status_read_def same_links_def)
  with r have "of_name r \<in> fst ` set (shash_nodes P (fan_data st'))" by (auto simp: rows_known_def)
  from row_fan_inv(2) [OF P inv this] obtain p f where
    "fan_mem st' p = Some f" "lf_name f = of_name r" "row_fan P st' r = Some f" by blast
  then show ?thesis by (intro exI [of _ p] exI [of _ f]) (simp add: mirror_def)
qed

lemma staged_fans: "idl_fans (staged P st st') = map (mirror P st') (idl_fans (idl st))"
  by (simp add: staged_def staged_rows_def Let_def)

lemma staged_rows_fans: "staged_rows P st' i = i \<longleftrightarrow> map (mirror P st') (idl_fans i) = idl_fans i"
  by (cases i) (simp add: staged_rows_def)

lemma status_read_fans:
  assumes "commits P" "status_read P st st'"
  shows "idl_fans (idl st') = map (mirror P st') (idl_fans (idl st))"
  using assms by (auto simp: status_read_def commits_def staged_fans staged_rows_fans)

lemma status_read_subsystems:
  "commits P \<Longrightarrow> status_read P st st' \<Longrightarrow> idl_subsystems (idl st') = idl_subsystems (idl st)"
  by (simp add: status_read_def commits_def staged_def staged_rows_def Let_def)

text \<open>The rows after a committed run, each with the fan that it shows.\<close>

lemma mirror_fan:
  assumes P: "shash_ok P" and read: "status_read P st st'" and r: "r \<in> set (idl_fans (idl st))"
  shows "of_name (mirror P st' r) = of_name r \<and> (\<exists>p f ss. fan_mem st' p = Some f \<and> lf_name f = of_name r \<and>
    subsys_mem st (subsystem f) = Some ss \<and> fan_wf f \<and> lf_speed f = speed ss \<and> mirror P st' r = fan_row_of f r)"
proof -
  from mirror_row [OF P read r] obtain p f
    where f: "fan_mem st' p = Some f" "lf_name f = of_name r" "mirror P st' r = fan_row_of f r" by blast
  moreover from read f(1) have "refreshed st' f" by (auto simp: status_read_def)
  then obtain ss where "subsys_mem st (subsystem f) = Some ss" "fan_wf f" "lf_speed f = speed ss"
    using read by (auto simp: refreshed_def status_read_def)
  ultimately show ?thesis
    by (intro conjI exI [of _ p] exI [of _ f] exI [of _ ss]) (simp_all add: fan_row_of_def)
qed

lemma status_read_names:
  assumes "shash_ok P" "commits P" "status_read P st st'"
  shows "map of_name (idl_fans (idl st')) = map of_name (idl_fans (idl st))"
  using mirror_fan [OF assms(1,3)] by (simp add: status_read_fans [OF assms(2,3)])

lemma status_read_row:
  assumes "shash_ok P" "commits P" "status_read P st st'" "r \<in> set (idl_fans (idl st'))"
  shows "\<exists>p f ss. fan_mem st' p = Some f \<and> lf_name f = of_name r \<and>
    subsys_mem st (subsystem f) = Some ss \<and> fan_wf f \<and>
    of_speed r = fan_speed_enum_to_string (speed ss) \<and>
    of_status r = fan_status_enum_to_string (status f) \<and>
    of_direction r = direction f \<and> of_rpm r = Some (sint (rpm f))"
proof -
  from assms(4) obtain q where q: "q \<in> set (idl_fans (idl st))" "r = mirror P st' q"
    by (auto simp: status_read_fans [OF assms(2,3)])
  from mirror_fan [OF assms(1,3) q(1)] obtain p f ss where "fan_mem st' p = Some f" "lf_name f = of_name q"
    "subsys_mem st (subsystem f) = Some ss" "fan_wf f" "lf_speed f = speed ss" "r = fan_row_of f q"
    by (auto simp: q(2))
  then show ?thesis by (intro exI [of _ p] exI [of _ f] exI [of _ ss]) (simp add: fan_row_of_def)
qed

section \<open>Properties\<close>

text \<open>
  C5: the database mirrors the hardware. When every row of the Fan table belongs to a fan of the daemon
  and the commit succeeds, the operation either stops at an rpm overflow or leaves in every row the
  status, speed, direction and rpm of the cached fan of the row's name, all freshly read, with the speed
  of the fan's subsystem; the names and the number of the rows do not change.
\<close>

theorem read_status_mirrors:
  assumes "shash_ok P" "yaml_ok P" "commits P" "fand_inv P st" "rows_known P st"
  shows "post {SignedOverflow} (\<lambda>st'.
      map of_name (idl_fans (idl st')) = map of_name (idl_fans (idl st)) \<and>
      (\<forall>r \<in> set (idl_fans (idl st')). \<exists>p f ss. fan_mem st' p = Some f \<and> lf_name f = of_name r \<and>
         subsys_mem st (subsystem f) = Some ss \<and> fan_wf f \<and>
         of_speed r = fan_speed_enum_to_string (speed ss) \<and>
         of_status r = fan_status_enum_to_string (status f) \<and>
         of_direction r = direction f \<and> of_rpm r = Some (sint (rpm f))))
    (fand_read_status P st)"
  using fand_read_status_known [OF assms(1,2,4,5)]
  by (rule post_mono) (use status_read_names status_read_row assms(1,3) in blast)

text \<open>
  C23: a row of the Fan table that the daemon has no fan for is fatal: reading the status then never
  completes, it follows a NULL node (or stops before at an rpm overflow).
\<close>

theorem read_status_unknown_row:
  assumes "shash_ok P" "yaml_ok P" "fand_inv P st"
    and "r \<in> set (idl_fans (idl st))" "of_name r \<notin> fst ` set (shash_nodes P (fan_data st))"
  shows "fand_read_status P st = Inl NullDeref \<or> fand_read_status P st = Inl SignedOverflow"
proof -
  have "\<not> rows_known P st" using assms(4,5) by (auto simp: rows_known_def)
  from fand_read_status_unknown [OF assms(1-3) this] show ?thesis
    by (cases "fand_read_status P st") auto
qed

text \<open>
  C29: no write without a change. When the rows already show what is read, and the daemon's
  \<open>cur_hw\<close> was set before or has no row, the replica is untouched, whatever a commit would do to it.
\<close>

theorem read_status_quiet:
  assumes "shash_ok P" "yaml_ok P" "fand_inv P st" "fand_read_status P st = Inr st'"
    and "map (mirror P st') (idl_fans (idl st)) = idl_fans (idl st)"
    and "cur_hw_set st \<or> ''ops-fand'' \<notin> od_name ` set (idl_daemons (idl st))"
  shows "idl st' = idl st \<and> cur_hw_set st' = cur_hw_set st"
proof -
  have "set_cur_hw ds = None" if "''ops-fand'' \<notin> od_name ` set ds" for ds
    using that by (induction ds) auto
  with assms(6) have "\<not> sets_cur_hw st" by (auto simp: sets_cur_hw_def)
  moreover have "status_read P st st'"
    using fand_read_status_post [OF assms(1-3)] assms(4) by simp
  ultimately show ?thesis using assms(5) by (simp add: status_read_def staged_rows_fans)
qed

text \<open>
  C30: \<open>cur_hw\<close> is announced once. After a completed run with a row for the daemon and a successful
  commit, the flag is set, the first row of the daemon's name has \<open>cur_hw\<close> 1 if the flag was clear
  before, and if the flag was set no daemon row is written.
\<close>

theorem cur_hw_once:
  assumes "shash_ok P" "yaml_ok P" "commits P" "fand_inv P st" "fand_read_status P st = Inr st'"
    and "idl_daemons (idl st) = ds @ d # ds'" "od_name d = ''ops-fand''" "''ops-fand'' \<notin> od_name ` set ds"
  shows "cur_hw_set st' \<and>
    idl_daemons (idl st') = (if cur_hw_set st then ds @ d # ds' else ds @ d\<lparr>od_cur_hw := 1\<rparr> # ds')"
proof -
  have "set_cur_hw (ds @ d # ds') = Some (ds @ d\<lparr>od_cur_hw := 1\<rparr> # ds')"
    using assms(7,8) by (induction ds) auto
  moreover have "status_read P st st'"
    using fand_read_status_post [OF assms(1,2,4)] assms(5) by simp
  ultimately show ?thesis using assms(3,6)
    by (auto simp: status_read_def sets_cur_hw_def staged_def staged_rows_def commits_def Let_def)
qed

end
