(* ===== verification/Printing.thy ===== *)
theory Printing
  imports Prelude
begin

text \<open>
  The pieces of \<open>printf\<close> that the support dump and the command line use: lines, decimal numbers and
  fields padded to a width.
\<close>

section \<open>Decimal numbers\<close>

text \<open>What \<open>printf\<close> writes for \<open>%d\<close>, and a reader for it.\<close>

fun dec_nat :: "nat \<Rightarrow> string" where
  "dec_nat n = (if n < 10 then [char_of (48 + n)] else dec_nat (n div 10) @ [char_of (48 + n mod 10)])"

declare dec_nat.simps [simp del]

definition dec_int :: "int \<Rightarrow> string" where
  "dec_int i = (if i < 0 then ''-'' @ dec_nat (nat (- i)) else dec_nat (nat i))"

definition read_digits :: "string \<Rightarrow> nat" where
  "read_digits s = foldl (\<lambda>v c. 10 * v + (of_char c - 48)) 0 s"

definition read_int :: "string \<Rightarrow> int" where
  "read_int s = (case s of [] \<Rightarrow> 0
     | c # cs \<Rightarrow> if c = CHR ''-'' then - int (read_digits cs) else int (read_digits (c # cs)))"

lemma of_char_digit: "(d :: nat) < 10 \<Longrightarrow> of_char (char_of (48 + d) :: char) = 48 + d"
  by (simp add: of_char_of)

lemma read_dec_nat [simp]: "read_digits (dec_nat n) = n"
proof (induction n rule: dec_nat.induct)
  case (1 n)
  show ?case
  proof (cases "n < 10")
    case True
    then show ?thesis by (subst dec_nat.simps) (simp add: read_digits_def of_char_digit)
  next
    case False
    then have "read_digits (dec_nat n) = 10 * read_digits (dec_nat (n div 10)) + n mod 10"
      by (subst dec_nat.simps) (simp add: read_digits_def of_char_digit)
    with 1 False show ?thesis by simp
  qed
qed

lemma digit_neq: "(d :: nat) < 10 \<Longrightarrow> (of_char c :: nat) < 48 \<Longrightarrow> c \<noteq> char_of (48 + d)"
proof
  assume d: "d < 10" "(of_char c :: nat) < 48" and "c = char_of (48 + d)"
  then have "(of_char c :: nat) = 48 + d" by (simp add: of_char_digit)
  with d show False by simp
qed

lemma hd_dec_nat: "\<exists>(d :: nat) cs. d < 10 \<and> dec_nat n = char_of (48 + d) # cs"
proof (induction n rule: dec_nat.induct)
  case (1 n)
  show ?case
  proof (cases "n < 10")
    case True
    then show ?thesis by (subst dec_nat.simps) auto
  next
    case False
    with 1 obtain d :: nat and cs where "d < 10" "dec_nat (n div 10) = char_of (48 + d) # cs" by blast
    with False show ?thesis by (subst dec_nat.simps) auto
  qed
qed

lemma read_dec_int [simp]: "read_int (dec_int i) = i"
proof (cases "i < 0")
  case True
  then show ?thesis by (simp add: dec_int_def read_int_def)
next
  case False
  from hd_dec_nat obtain d :: nat and cs where d: "d < 10" "dec_nat (nat i) = char_of (48 + d) # cs" by blast
  have "read_int (dec_nat (nat i)) = int (read_digits (dec_nat (nat i)))"
    unfolding read_int_def d(2) using digit_neq [OF d(1), of "CHR ''-''"] by auto
  with False show ?thesis by (simp add: dec_int_def)
qed

lemma dec_int_inject [simp]: "dec_int i = dec_int j \<longleftrightarrow> i = j"
  by (metis read_dec_int)

section \<open>Lines and fields\<close>

definition line :: "string \<Rightarrow> string \<Rightarrow> string" where
  "line label text = label @ text @ ''\<newline>''"

text \<open>\<open>%-<w>s\<close> pads on the right and never truncates.\<close>

definition pad_right :: "nat \<Rightarrow> string \<Rightarrow> string" where
  "pad_right w s = s @ replicate (w - length s) CHR '' ''"

lemma length_pad_right [simp]: "length (pad_right w s) = max w (length s)"
  by (simp add: pad_right_def)

end
