(* ===== verification/Fand_Dump.thy ===== *)
theory Fand_Dump
  imports Fand_Status Printing
begin

text \<open>
  The support dump of \<open>fand_unixctl_dump\<close> (\<open>ovs-appctl -t ops-fand ops-fand/dump\<close>): the text that is
  sent back for the cached subsystems and fans.
\<close>

section \<open>The code\<close>

text \<open>The loop over the fans of a subsystem, lines 620-628; \<open>ds\<close> is the dynamic string.\<close>

definition dump_fan :: "('s, 'y, 'h) fand \<Rightarrow> string \<times> addr \<Rightarrow> string \<Rightarrow> fault + string" where
  "dump_fan st fan_node ds =
     and_then (get_fan (snd fan_node) st) (\<lambda>fan.
       Inr (ds @ line ''        Name: '' (lf_name fan)
              @ line ''            rpm: '' (dec_int (sint (rpm fan)))
              @ line ''            direction: '' (direction fan)
              @ line ''            status: '' (fan_status_enum_to_string (status fan))))"

definition dump_subsystem :: "('s, 'y, 'h) platform \<Rightarrow> ('s, 'y, 'h) fand \<Rightarrow> string \<times> addr \<Rightarrow>
    string \<Rightarrow> fault + string" where
  "dump_subsystem P st node ds =
     and_then (get_subsys (snd node) st) (\<lambda>subsystem.
       let ds = ds @ line ''Subsystem: '' (ls_name subsystem)
                   @ line ''    Fan speed Override: '' (fan_speed_enum_to_string (fan_speed_override subsystem))
                   @ line ''    Fan speed: '' (fan_speed_enum_to_string (fan_speed subsystem))
                   @ ''    Fan details:''
       in if shash_nodes P (subsystem_fans subsystem) = [] then Inr (ds @ ''No Fans found.\<newline>'')
          else foreach (dump_fan st) (shash_nodes P (subsystem_fans subsystem)) (ds @ ''\<newline>''))"

definition fand_unixctl_dump :: "('s, 'y, 'h) platform \<Rightarrow> ('s, 'y, 'h) fand \<Rightarrow> fault + string" where
  "fand_unixctl_dump P st = foreach (dump_subsystem P st) (shash_nodes P (subsystem_data st)) []"

section \<open>The text\<close>

definition fan_text :: "locl_fan \<Rightarrow> string" where
  "fan_text fan = line ''        Name: '' (lf_name fan)
     @ line ''            rpm: '' (dec_int (sint (rpm fan)))
     @ line ''            direction: '' (direction fan)
     @ line ''            status: '' (fan_status_enum_to_string (status fan))"

definition subsystem_text :: "('s, 'y, 'h) platform \<Rightarrow> ('s, 'y, 'h) fand \<Rightarrow> 's locl_subsystem \<Rightarrow> string" where
  "subsystem_text P st ss = line ''Subsystem: '' (ls_name ss)
     @ line ''    Fan speed Override: '' (fan_speed_enum_to_string (fan_speed_override ss))
     @ line ''    Fan speed: '' (fan_speed_enum_to_string (fan_speed ss))
     @ ''    Fan details:''
     @ (if shash_nodes P (subsystem_fans ss) = [] then ''No Fans found.\<newline>''
        else ''\<newline>'' @ concat (map (\<lambda>nd. fan_text (the (fan_mem st (snd nd)))) (shash_nodes P (subsystem_fans ss))))"

lemma foreach_append_text:
  assumes "\<And>x ds. x \<in> set xs \<Longrightarrow> f x ds = Inr (ds @ t x)"
  shows "foreach f xs ds = Inr (ds @ concat (map t xs))"
  using assms by (induction xs arbitrary: ds) auto

lemma dump_subsystem_eq:
  assumes inv: "fand_inv P st" and ss: "subsys_mem st a = Some ss"
  shows "dump_subsystem P st (n, a) ds = Inr (ds @ subsystem_text P st ss)"
proof -
  have "dump_fan st nd ds = Inr (ds @ fan_text (the (fan_mem st (snd nd))))"
    if "nd \<in> set (shash_nodes P (subsystem_fans ss))" for nd ds
    using inv_node_fan [OF inv ss, of "fst nd" "snd nd"] that
    by (auto simp: dump_fan_def get_fan_def fan_text_def)
  then have "foreach (dump_fan st) (shash_nodes P (subsystem_fans ss)) ds =
      Inr (ds @ concat (map (\<lambda>nd. fan_text (the (fan_mem st (snd nd)))) (shash_nodes P (subsystem_fans ss))))" for ds
    by (rule foreach_append_text)
  with ss show ?thesis by (simp add: dump_subsystem_def get_subsys_def Let_def subsystem_text_def)
qed

lemma fand_unixctl_dump_eq:
  assumes inv: "fand_inv P st"
  shows "fand_unixctl_dump P st = Inr (concat (map (\<lambda>nd. subsystem_text P st (the (subsys_mem st (snd nd))))
    (shash_nodes P (subsystem_data st))))"
proof -
  have "dump_subsystem P st nd ds = Inr (ds @ subsystem_text P st (the (subsys_mem st (snd nd))))"
    if "nd \<in> set (shash_nodes P (subsystem_data st))" for nd ds
    using inv_node_subsys [OF inv, of "fst nd" "snd nd"] that
    by (cases nd) (auto simp: dump_subsystem_eq [OF inv])
  then have "foreach (dump_subsystem P st) (shash_nodes P (subsystem_data st)) [] =
      Inr ([] @ concat (map (\<lambda>nd. subsystem_text P st (the (subsys_mem st (snd nd))))
        (shash_nodes P (subsystem_data st))))"
    by (rule foreach_append_text)
  then show ?thesis by (simp add: fand_unixctl_dump_def)
qed

section \<open>Properties\<close>

text \<open>
  C39: the support dump of a well-formed heap never faults, and its text is the concatenation, in table
  order, of one section per live subsystem with one paragraph per fan of it.
\<close>

theorem dump_sections:
  assumes "fand_inv P st"
  shows "fand_unixctl_dump P st = Inr (concat (map (\<lambda>nd. subsystem_text P st (the (subsys_mem st (snd nd))))
      (shash_nodes P (subsystem_data st))))"
  using assms by (rule fand_unixctl_dump_eq)

end
