(* ===== verification/Fand_Rows.thy ===== *)
theory Fand_Rows
  imports Fand_Status
begin

text \<open>
  What a reconfiguration does to the Fan table of the replica: a row that was not there before is one
  that \<open>add_subsystem\<close> has just initialised, with the name of a fan of a new subsystem.
\<close>

section \<open>Rows that were added\<close>

definition default_row :: "ovsrec_fan \<Rightarrow> bool" where
  "default_row r \<longleftrightarrow> of_status r = ''uninitialized'' \<and> of_direction r = ''f2b'' \<and> of_speed r = ''normal''"

text \<open>A fan of a subsystem that the state \<open>st0\<close> does not have.\<close>

definition added_fan :: "('s, 'y, 'h) fand \<Rightarrow> ('s, 'y, 'h) fand \<Rightarrow> string \<Rightarrow> bool" where
  "added_fan st0 st n \<longleftrightarrow> (\<exists>p f. fan_mem st p = Some f \<and> lf_name f = n \<and> subsys_mem st0 (subsystem f) = None)"

definition row_added :: "('s, 'y, 'h) fand \<Rightarrow> ('s, 'y, 'h) fand \<Rightarrow> ovsrec_fan \<Rightarrow> bool" where
  "row_added st0 st r \<longleftrightarrow> default_row r \<and> added_fan st0 st (of_name r) \<and>
     (of_rpm r = None \<or> of_rpm r \<in> of_rpm ` set (idl_fans (idl st0)))"

definition rows_grow :: "('s, 'y, 'h) fand \<Rightarrow> ('s, 'y, 'h) fand \<Rightarrow> ovsdb_idl \<Rightarrow> bool" where
  "rows_grow st0 st i \<longleftrightarrow> (\<forall>r \<in> set (idl_fans i). r \<in> set (idl_fans (idl st0)) \<or> row_added st0 st r)"

lemma rows_grow_refl [simp]: "rows_grow st0 st (idl st0)"
  by (simp add: rows_grow_def)

text \<open>Fans that stay, up to their readings, keep what the rows are traced back to.\<close>

definition fans_stay :: "('s, 'y, 'h) fand \<Rightarrow> ('s, 'y, 'h) fand \<Rightarrow> bool" where
  "fans_stay st st' \<longleftrightarrow> (\<forall>p f. fan_mem st p = Some f \<longrightarrow>
     (\<exists>f'. fan_mem st' p = Some f' \<and> lf_name f' = lf_name f \<and> subsystem f' = subsystem f))"

lemma rows_grow_stay: "rows_grow st0 st i \<Longrightarrow> fans_stay st st' \<Longrightarrow> rows_grow st0 st' i"
  unfolding rows_grow_def row_added_def added_fan_def fans_stay_def by metis

lemma fans_stay_frame: "hw_frame st st' \<Longrightarrow> fans_stay st st'"
  unfolding fans_stay_def using hw_frame_links same_links_fan by blast

lemma fans_stay_mem: "\<forall>p f. fan_mem st p = Some f \<longrightarrow> fan_mem st' p = Some f \<Longrightarrow> fans_stay st st'"
  by (simp add: fans_stay_def)

section \<open>Adding one fan\<close>

lemma fan_row_init_fans:
  assumes P: "fan_insert_ok P" and r: "r \<in> set (idl_fans (snd (fan_row_init P n i)))"
  shows "r \<in> set (idl_fans i) \<or> of_name r = n \<and> default_row r \<and>
    (of_rpm r = None \<or> of_rpm r \<in> of_rpm ` set (idl_fans i))"
proof -
  have names: "fan_status_enum_to_string FAND_STATUS_UNINITIALIZED = ''uninitialized''"
    "fan_speed_enum_to_string FAND_SPEED_NORMAL = ''normal''"
    by (simp_all add: fan_status_enum_to_string_def fanstatus_string_def fan_speed_enum_to_string_def fanspeed_string_def)
  show ?thesis
  proof (cases "lookup_fan n i")
    case (Some u)
    with r show ?thesis
      by (auto simp: fan_row_init_def fan_row_update_def default_row_def names split: if_splits)
  next
    case None
    obtain rows u where ins: "fan_insert P (idl_fans i) = (rows, u)" by fastforce
    with P obtain r0 where r0: "of_uuid r0 = u" "of_rpm r0 = None" "mset rows = add_mset r0 (mset (idl_fans i))"
      unfolding fan_insert_ok_def by (force dest: spec [of _ "idl_fans i"])
    from r0(3) have "set rows = insert r0 (set (idl_fans i))" by (metis set_mset_add_mset_insert set_mset_mset)
    with r None ins r0(1,2) show ?thesis
      by (auto simp: fan_row_init_def fan_row_update_def default_row_def names split: if_splits)
  qed
qed

text \<open>The addresses that are not in use, and the block the new fans belong to.\<close>

definition adding :: "addr \<Rightarrow> ('s, 'y, 'h) fand \<Rightarrow> ('s, 'y, 'h) fand \<Rightarrow> ('s, 'y, 'h) fand \<Rightarrow> bool" where
  "adding a st0 st1 st \<longleftrightarrow> subsys_mem st a \<noteq> None \<and> (\<forall>q. next_addr st \<le> q \<longrightarrow> fan_mem st q = None) \<and>
     fans_stay st1 st \<and> rows_grow st0 st (idl st)"

lemma add_fan_adding:
  assumes P: "fan_insert_ok P" and a: "subsys_mem st0 a = None" and k: "adding a st0 st1 st"
  shows "post F (\<lambda>s. adding a st0 st1 (snd s)) (add_fan P name a g (arr, st))"
proof -
  let ?n = "full_name name (yf_name g)" and ?p = "next_addr st"
  from k obtain ss where ss: "subsys_mem st a = Some ss" and free: "\<forall>q. ?p \<le> q \<longrightarrow> fan_mem st q = None"
    and stay: "fans_stay st1 st" and grow: "rows_grow st0 st (idl st)" by (auto simp: adding_def)
  obtain u i where ini: "fan_row_init P ?n (idl st) = (u, i)" by fastforce
  obtain st' where run: "add_fan P name a g (arr, st) = Inr (arr @ [u], st')"
    and st': "subsys_mem st' a \<noteq> None" "next_addr st' = Suc ?p" "idl st' = i"
      "fan_mem st' = (fan_mem st)(?p \<mapsto> new_fan P ?p ?n a g)"
    using ss by (simp add: add_fan_def get_subsys_def Let_def ini)
  have stay': "fans_stay st st'" using free by (intro fans_stay_mem) (auto simp: st'(4))
  have new: "added_fan st0 st' ?n" unfolding added_fan_def using a by (auto simp: st'(4) intro!: exI [of _ ?p])
  have "rows_grow st0 st' i"
    unfolding rows_grow_def
  proof
    fix r assume "r \<in> set (idl_fans i)"
    with fan_row_init_fans [OF P, of r ?n "idl st"] ini
    consider "r \<in> set (idl_fans (idl st))" | "of_name r = ?n" "default_row r"
      "of_rpm r = None \<or> of_rpm r \<in> of_rpm ` set (idl_fans (idl st))" by auto
    then show "r \<in> set (idl_fans (idl st0)) \<or> row_added st0 st' r"
    proof cases
      case 1
      with rows_grow_stay [OF grow stay'] show ?thesis by (simp add: rows_grow_def)
    next
      case 2
      then have "of_rpm r = None \<or> of_rpm r \<in> of_rpm ` set (idl_fans (idl st0))"
        using grow by (auto simp: rows_grow_def row_added_def)
      with 2 new show ?thesis by (simp add: row_added_def)
    qed
  qed
  moreover have "fans_stay st1 st'" using stay stay' unfolding fans_stay_def by metis
  ultimately show ?thesis using st' free by (simp add: run adding_def)
qed

section \<open>Adding a subsystem\<close>

lemma commit_rows_grow:
  assumes "commit_atomic P" "rows_grow st0 st before" "rows_grow st0 st after"
  shows "rows_grow st0 st (txn_commit_block P before after)"
  using assms unfolding commit_atomic_def by (metis insertE singletonD)

lemma add_fru_fans_adding:
  fixes P :: "('b, 'c, 'd) platform"
  assumes "fan_insert_ok P" "subsys_mem st0 a = None" "adding a st0 st1 (snd s)"
  shows "post UNIV (\<lambda>s. adding a st0 st1 (snd s)) (add_fru_fans P y name a idx s)"
  unfolding add_fru_fans_def
proof (rule post_and_then_eq, cases "yaml_get_fan_fru P y name idx")
  case (Some fru)
  have "post UNIV (\<lambda>s. adding a st0 st1 (snd s)) (foreach (add_fan P name a) (fru_fans fru) s)"
    using assms(3)
  proof (rule post_foreach)
    fix g and s :: "nat list \<times> ('b, 'c, 'd) fand" assume "adding a st0 st1 (snd s)"
    with add_fan_adding [OF assms(1,2), of st1 "snd s" UNIV name g "fst s"]
    show "post UNIV (\<lambda>s. adding a st0 st1 (snd s)) (add_fan P name a g s)" by simp
  qed
  with Some show "post UNIV (\<lambda>fru. post UNIV (\<lambda>s. adding a st0 st1 (snd s)) (foreach (add_fan P name a) (fru_fans fru) s))
      (deref NullDeref (yaml_get_fan_fru P y name idx))" by simp
qed simp

lemma add_all_fans_rows_finish:
  assumes P: "yaml_ok P" "commit_atomic P" and grow: "rows_grow st0 st (idl st)" and s: "adding a st0 st s"
    and st3: "st3 = commit_block P (idl st) (s\<lparr>idl := set_subsystem_fans u arr (idl s)\<rparr>)"
  shows "post UNIV (\<lambda>st'. fans_stay st st' \<and> rows_grow st0 st' (idl st')) (fand_set_fanspeed P a st3)"
proof -
  have stay: "fans_stay st st3" using s by (simp add: st3 adding_def fans_stay_def commit_block_def)
  have "rows_grow st0 s (set_subsystem_fans u arr (idl s))" "rows_grow st0 s (idl st)"
    using s rows_grow_stay [OF grow, of s] by (simp_all add: adding_def rows_grow_def set_subsystem_fans_def)
  then have "rows_grow st0 s (idl st3)"
    using commit_rows_grow [OF P(2)] by (simp add: st3 commit_block_def)
  then have grow3: "rows_grow st0 st3 (idl st3)"
    by (rule rows_grow_stay) (simp add: st3 fans_stay_def commit_block_def)
  have "speed_ok P a st3" using s P(1) by (simp add: st3 speed_ok_def adding_def commit_block_def)
  from speed_op.opn_post [OF this] show ?thesis
  proof (rule post_weaken)
    fix st' assume "speed_effect P a st3 st'"
    then have fr: "hw_frame st3 st'" by (rule speed_op.effect_frame)
    then have "idl st' = idl st3" by (simp add: hw_frame_def same_db_def)
    moreover note rows_grow_stay [OF grow3 fans_stay_frame [OF fr]]
    moreover have "fans_stay st st'" using stay fans_stay_frame [OF fr] unfolding fans_stay_def by metis
    ultimately show "fans_stay st st' \<and> rows_grow st0 st' (idl st')" by simp
  qed simp
qed

lemma add_all_fans_rows:
  assumes P: "yaml_ok P" "fan_insert_ok P" "commit_atomic P" and a: "subsys_mem st0 a = None"
    and ss: "subsys_mem st a = Some ss" and free: "\<forall>q. next_addr st \<le> q \<longrightarrow> fan_mem st q = None"
    and grow: "rows_grow st0 st (idl st)"
  shows "post UNIV (\<lambda>(r, st'). fans_stay st st' \<and> rows_grow st0 st' (idl st')) (add_all_fans P cfg a n st)"
proof (cases "count_fans P (yaml_handle st) (os_name cfg) n")
  case (Inl e)
  with ss show ?thesis by (simp add: add_all_fans_def get_subsys_def Let_def)
next
  case (Inr total)
  define st1 where "st1 = log_io (FanCountEvent (os_name cfg) total) (put_subsys a (ss\<lparr>valid := True\<rparr>) st)"
  have "adding a st0 st st1"
    using free grow rows_grow_stay [OF grow fans_stay_mem, of st1]
    by (simp add: adding_def st1_def fans_stay_def log_io_def put_subsys_def)
  then have start: "adding a st0 st (snd ([] :: nat list, st1))" by simp
  have loop: "post UNIV (\<lambda>s. adding a st0 st (snd s))
      (foreach (add_fru_fans P (yaml_handle st) (os_name cfg) a) [0 ..< n] ([], st1))"
    using start by (rule post_foreach [where I = "\<lambda>s. adding a st0 st (snd s)"]) (rule add_fru_fans_adding [OF P(2) a])
  have finish: "post UNIV (\<lambda>(r, st'). fans_stay st st' \<and> rows_grow st0 st' (idl st'))
      (and_then (fand_set_fanspeed P a (commit_block P (idl st) (s\<lparr>idl := set_subsystem_fans (os_uuid cfg) arr (idl s)\<rparr>)))
        (\<lambda>st. Inr (Some a, st)))" if "adding a st0 st s" for arr s
    using add_all_fans_rows_finish [OF P(1,3) grow that refl] by (rule post_and_then) simp
  have "add_all_fans P cfg a n st = and_then (foreach (add_fru_fans P (yaml_handle st) (os_name cfg) a) [0 ..< n] ([], st1))
      (\<lambda>(arr, s). and_then (fand_set_fanspeed P a (commit_block P (idl st)
        (s\<lparr>idl := set_subsystem_fans (os_uuid cfg) arr (idl s)\<rparr>))) (\<lambda>st. Inr (Some a, st)))"
    using ss Inr by (simp add: add_all_fans_def get_subsys_def Let_def st1_def)
  with loop finish show ?thesis by (auto elim!: post_and_then)
qed

lemma add_subsystem_rows:
  assumes P: "shash_ok P" "yaml_ok P" "fan_insert_ok P" "commit_atomic P" and inv: "fand_inv P st"
    and new: "subsys_mem st0 (next_addr st) = None" and grow: "rows_grow st0 st (idl st)"
  shows "post UNIV (\<lambda>(r, st'). fans_stay st st' \<and> rows_grow st0 st' (idl st')) (add_subsystem P cfg st)"
proof -
  let ?a = "next_addr st" and ?Q = "\<lambda>st'. fans_stay st st' \<and> rows_grow st0 st' (idl st')"
  define st1 where "st1 = put_subsys ?a (new_subsystem P cfg) (st\<lparr>next_addr := Suc ?a,
    subsystem_data := shash_add P (subsystem_data st) (os_name cfg) ?a\<rparr>)"
  obtain ok y where load: "load_description P cfg st1 = (ok, st1\<lparr>yaml_handle := y\<rparr>)"
    using load_description_post [OF P(2), of cfg st1] by blast
  have stay: "fans_stay st s" if "fan_mem s = fan_mem st" for s using that by (simp add: fans_stay_def)
  have Q: "?Q s" if "fan_mem s = fan_mem st" "idl s = idl st" for s
    using stay [OF that(1)] rows_grow_stay [OF grow stay [OF that(1)]] that(2) by simp
  have Q2: "?Q (st1\<lparr>yaml_handle := y\<rparr>)" by (rule Q) (simp_all add: st1_def put_subsys_def)
  show ?thesis
  proof (cases "ok \<and> yaml_get_fan_info P y (os_name cfg) \<noteq> None")
    case False
    with load Q2 show ?thesis by (auto simp: add_subsystem_def Let_def st1_def [symmetric])
  next
    case True
    then obtain info where info: "yaml_get_fan_info P y (os_name cfg) = Some info" by blast
    let ?ss = "(new_subsystem P cfg)\<lparr>multiplier := fan_speed_multiplier info, numerator := fan_speed_numerator info\<rparr>"
    let ?n = "yaml_get_fan_fru_count P y (os_name cfg)"
    define st3 where "st3 = put_subsys ?a ?ss (st1\<lparr>yaml_handle := y\<rparr>)"
    have f: "fan_mem st3 = fan_mem st" "idl st3 = idl st" "next_addr st3 = Suc ?a" "subsys_mem st3 ?a = Some ?ss"
      by (simp_all add: st3_def st1_def put_subsys_def)
    from Q [OF f(1,2)] have Q3: "?Q st3" .
    have "fan_mem st3 q = None" if "next_addr st3 \<le> q" for q
      using inv that unfolding f(1,3) fand_inv_def addrs_ok_def by (metis Suc_leD leD)
    then have "post UNIV (\<lambda>(r, st'). fans_stay st3 st' \<and> rows_grow st0 st' (idl st')) (add_all_fans P cfg ?a (unat ?n) st3)"
      using Q3 by (intro add_all_fans_rows [OF P(2-4) new f(4)]) simp_all
    then have "post UNIV (\<lambda>(r, st'). ?Q st') (add_all_fans P cfg ?a (unat ?n) st3)"
      by (rule post_weaken) (auto simp: fans_stay_def f(1))
    moreover have "add_subsystem P cfg st = (if ?n \<le> 0 then Inr (None, st3) else add_all_fans P cfg ?a (unat ?n) st3)"
      using True info load by (simp add: add_subsystem_def Let_def st1_def [symmetric] st3_def)
    ultimately show ?thesis using Q3 by simp
  qed
qed

section \<open>The rows of the Subsystem table\<close>

lemma get_subsystem_rows:
  assumes P: "shash_ok P" "yaml_ok P" "fan_insert_ok P" "commit_atomic P" and inv: "fand_inv P st"
    and new: "subsys_mem st0 (next_addr st) = None" and grow: "rows_grow st0 st (idl st)"
  shows "post UNIV (\<lambda>(r, st'). rows_grow st0 st' (idl st')) (get_subsystem P cfg st)"
  using inv
proof (cases rule: subsystem_known_or_new [of P st "os_name cfg"])
  case (1 a ss)
  with grow show ?thesis by (simp add: get_subsystem_known [OF P(1) inv 1])
next
  case 2
  from add_subsystem_rows [OF assms] show ?thesis
    unfolding get_subsystem_new [OF P(1) 2] by (rule post_weaken) auto
qed

lemma configure_subsystem_rows:
  assumes "yaml_ok P" "fand_inv P st" "subsys_mem st a = Some ss" "rows_grow st0 st (idl st)"
  shows "post UNIV (\<lambda>st'. rows_grow st0 st' (idl st')) (configure_subsystem P cfg a st)"
  using configure_subsystem_post [OF assms(1-3)]
proof (rule post_weaken)
  fix st' assume "bus_op (put_subsys a (configured cfg ss) st)
    (speed_trace P (yaml_handle st) (configured cfg ss) @ led_trace P ss st) st'"
  then have "same_daemon (put_subsys a (configured cfg ss) st) st'" by (simp add: bus_op_def)
  from same_daemon_fields [OF this] have "fan_mem st' = fan_mem st" "idl st' = idl st" by simp_all
  with assms(4) show "rows_grow st0 st' (idl st')" by (auto intro: rows_grow_stay simp: fans_stay_def)
qed simp

text \<open>The state between two rows: the blocks of \<open>st0\<close> are still in use.\<close>

definition between_rows :: "('s, 'y, 'h) platform \<Rightarrow> ('s, 'y, 'h) fand \<Rightarrow> ('s, 'y, 'h) fand \<Rightarrow> bool" where
  "between_rows P st0 st \<longleftrightarrow> fand_inv P st \<and> (\<forall>b. subsys_mem st0 b \<noteq> None \<longrightarrow> subsys_mem st b \<noteq> None) \<and>
     rows_grow st0 st (idl st)"

lemma reconfigure_subsystem_rows:
  assumes P: "shash_ok P" "yaml_ok P" "fan_names_ok P" "fan_insert_ok P" "commit_atomic P"
    and b: "between_rows P st0 st"
  shows "post UNIV (between_rows P st0) (reconfigure_subsystem P cfg st)"
proof -
  have inv: "fand_inv P st" and grow: "rows_grow st0 st (idl st)"
    and used: "\<forall>b. subsys_mem st0 b \<noteq> None \<longrightarrow> subsys_mem st b \<noteq> None" using b by (simp_all add: between_rows_def)
  have "subsys_mem st (next_addr st) = None" using inv by (force simp: fand_inv_def addrs_ok_def)
  then have new: "subsys_mem st0 (next_addr st) = None" using used by auto
  have "post UNIV (\<lambda>st'. rows_grow st0 st' (idl st')) (reconfigure_subsystem P cfg st)"
    unfolding reconfigure_subsystem_def
    using post_conj [OF get_subsystem_post [OF P(1-3) inv] get_subsystem_rows [OF P(1,2,4,5) inv new grow], of cfg]
  proof (rule post_and_then [OF post_weaken])
    fix x assume x: "subsys_got P cfg st x \<and> (case x of (r, st') \<Rightarrow> rows_grow st0 st' (idl st'))"
    obtain r st1 where x': "x = (r, st1)" by fastforce
    show "post UNIV (\<lambda>st'. rows_grow st0 st' (idl st'))
        (case x of (None, st) \<Rightarrow> Inr st | (Some a, st) \<Rightarrow> configure_subsystem P cfg a st)"
    proof (cases r)
      case None
      with x show ?thesis by (simp add: x')
    next
      case (Some a)
      with x obtain ss where "subsys_mem st1 a = Some ss" "fand_inv P st1"
        by (auto simp: x' subsys_got_def split: if_splits)
      with x Some configure_subsystem_rows [OF P(2), of st1 a ss st0 cfg] show ?thesis by (simp add: x')
    qed
  qed simp_all
  from post_conj [OF reconfigure_subsystem_post [OF P(1-3) inv] this] show ?thesis
  proof (rule post_weaken)
    fix st' assume s: "row_step P cfg st st' \<and> rows_grow st0 st' (idl st')"
    then obtain a ss where "fand_inv P st'" "subsys_mem st' a = Some ss"
      "\<forall>b. b \<noteq> a \<longrightarrow> subsys_mem st' b = subsys_mem st b"
      unfolding row_step_def by (elim conjE exE) (rule that)
    moreover have "subsys_mem st' b \<noteq> None" if "subsys_mem st0 b \<noteq> None" for b
      using calculation used that by (cases "b = a") auto
    ultimately show "between_rows P st0 st'" using s by (simp add: between_rows_def)
  qed simp
qed

lemma reconfigure_rows_grow:
  assumes P: "shash_ok P" "yaml_ok P" "fan_names_ok P" "fan_insert_ok P" "commit_atomic P" and inv: "fand_inv P st"
  shows "post UNIV (between_rows P st) (foreach (reconfigure_subsystem P) rows st)"
  by (rule post_foreach) (use inv reconfigure_subsystem_rows [OF P] in \<open>auto simp: between_rows_def\<close>)

section \<open>The whole reconfiguration\<close>

text \<open>The fans of an added row are still there after the sweep: their subsystem is in the database.\<close>

lemma added_fan_kept:
  assumes ph: "reconfigure_phases P st st1 st2 st3" and add: "added_fan st1 st2 n"
  shows "n \<in> fst ` set (shash_nodes P (fan_data st3))"
proof -
  from ph have d: "rows_done P st1 (set (idl_subsystems (idl st))) st2" and inv3: "fand_inv P st3"
    and subs: "\<And>a. subsys_mem st3 a = opt_filter marked (subsys_mem st2 a)"
    and fans: "\<And>p. fan_mem st3 p = opt_filter (\<lambda>f. subsys_mem st3 (subsystem f) \<noteq> None) (fan_mem st2 p)"
    by (simp_all add: reconfigure_phases_def swept_def)
  from add obtain p f where f: "fan_mem st2 p = Some f" "lf_name f = n" "subsys_mem st1 (subsystem f) = None"
    by (auto simp: added_fan_def)
  have inv2: "fand_inv P st2" using d by (simp add: rows_done_def)
  then obtain ss where ss: "subsys_mem st2 (subsystem f) = Some ss"
    using f(1) by (force simp: fand_inv_def subsystem_fans_ok_def)
  then have "(n, p) \<in> set (shash_nodes P (subsystem_fans ss))"
    using inv2 f(1,2) by (auto simp: fand_inv_def subsystem_fans_ok_def)
  then have "shash_nodes P (subsystem_fans ss) \<noteq> []" by auto
  with d ss f(3) have "marked ss" unfolding rows_done_def by blast
  with subs ss have "subsys_mem st3 (subsystem f) = Some ss" by simp
  with fans f(1) have "fan_mem st3 p = Some f" by simp
  with inv3 f(2) have "(n, p) \<in> set (shash_nodes P (fan_data st3))"
    by (auto simp: fand_inv_def fan_table_ok_def)
  then show ?thesis by force
qed

lemma reconfigure_fan_rows:
  assumes P: "shash_ok P" "yaml_ok P" "fan_names_ok P" "fan_insert_ok P" "commit_atomic P" and inv: "fand_inv P st"
    and dist: "distinct (map os_name (idl_subsystems (idl st)))"
    and r: "r \<in> set (idl_fans (idl st'))" and run: "fand_reconfigure P st = Inr st'"
  shows "r \<in> set (idl_fans (idl st)) \<or> of_name r \<in> fst ` set (shash_nodes P (fan_data st'))"
proof (cases "idl_get_seqno (idl st) = idl_seqno st")
  case True
  with run r show ?thesis by (simp add: fand_reconfigure_def)
next
  case False
  from fand_reconfigure_phases [OF P(1-3) inv dist False] run obtain st1 st2
    where ph: "reconfigure_phases P st st1 st2 st'" by auto
  then have inv1: "fand_inv P st1" and i: "idl st1 = idl st" "idl st' = idl st2"
    and loop: "foreach (reconfigure_subsystem P) (idl_subsystems (idl st)) st1 = Inr st2"
    using unmarked_start(2) [of P "st\<lparr>idl_seqno := idl_get_seqno (idl st)\<rparr>" st1] inv
    by (auto simp: reconfigure_phases_def unmarked_def swept_def same_env_def)
  from reconfigure_rows_grow [OF P inv1, of "idl_subsystems (idl st)"] loop
  have "rows_grow st1 st2 (idl st2)" by (simp add: between_rows_def)
  with r i have "r \<in> set (idl_fans (idl st)) \<or> added_fan st1 st2 (of_name r)"
    by (auto simp: rows_grow_def row_added_def)
  with added_fan_kept [OF ph] show ?thesis by blast
qed

section \<open>The schema\<close>

text \<open>The values that the schema of the Fan table admits; an rpm is an \<open>int\<close>.\<close>

definition fan_row_typed :: "ovsrec_fan \<Rightarrow> bool" where
  "fan_row_typed r \<longleftrightarrow> of_status r \<in> {''uninitialized'', ''ok'', ''fault''} \<and>
     of_direction r \<in> {''f2b'', ''b2f''} \<and> of_speed r \<in> {''slow'', ''normal'', ''medium'', ''fast'', ''max''} \<and>
     (\<forall>n. of_rpm r = Some n \<longrightarrow> - (2 ^ 31) \<le> n \<and> n < 2 ^ 31)"

definition idl_typed :: "ovsdb_idl \<Rightarrow> bool" where
  "idl_typed i \<longleftrightarrow> (\<forall>r \<in> set (idl_fans i). fan_row_typed r)"

lemma rows_grow_typed: "idl_typed (idl st0) \<Longrightarrow> rows_grow st0 st i \<Longrightarrow> idl_typed i"
  unfolding idl_typed_def
proof
  fix r assume typed: "\<forall>r \<in> set (idl_fans (idl st0)). fan_row_typed r" and grow: "rows_grow st0 st i"
    and r: "r \<in> set (idl_fans i)"
  then consider "r \<in> set (idl_fans (idl st0))" | "row_added st0 st r" by (auto simp: rows_grow_def)
  then show "fan_row_typed r"
    by cases (use typed in \<open>auto simp: row_added_def default_row_def fan_row_typed_def\<close>)
qed

lemma reconfigure_typed:
  assumes P: "shash_ok P" "yaml_ok P" "fan_names_ok P" "fan_insert_ok P" "commit_atomic P" and inv: "fand_inv P st"
    and typed: "idl_typed (idl st)"
  shows "post UNIV (\<lambda>st'. idl_typed (idl st')) (fand_reconfigure P st)"
proof -
  let ?st0 = "st\<lparr>idl_seqno := idl_get_seqno (idl st)\<rparr>"
  have inv0: "fand_inv P ?st0" using inv by simp
  have "post UNIV (\<lambda>st'. idl_typed (idl st')) (and_then (fand_unmark_subsystems P ?st0) (\<lambda>st.
      and_then (foreach (reconfigure_subsystem P) (idl_subsystems (idl st)) st) (fand_remove_unmarked_subsystems P)))"
  proof (rule post_and_then [OF post_weaken [OF unmark_post [OF inv0]]])
    fix st1 assume u: "unmarked ?st0 {} st1"
    then have "idl_typed (idl st1)" using typed by (simp add: unmarked_def same_env_def)
    note grow = reconfigure_rows_grow [OF P unmarked_start(2) [OF inv0 u], of "idl_subsystems (idl st1)"]
    show "post UNIV (\<lambda>st'. idl_typed (idl st'))
      (and_then (foreach (reconfigure_subsystem P) (idl_subsystems (idl st1)) st1) (fand_remove_unmarked_subsystems P))"
      using grow
    proof (rule post_and_then)
      fix st2 assume "between_rows P st1 st2"
      then have inv2: "fand_inv P st2" and "idl_typed (idl st2)"
        using rows_grow_typed [OF \<open>idl_typed (idl st1)\<close>] by (auto simp: between_rows_def)
      then show "post UNIV (\<lambda>st'. idl_typed (idl st')) (fand_remove_unmarked_subsystems P st2)"
        by (intro post_weaken [OF sweep_post [OF P(1) inv2]]) (auto simp: swept_def same_env_def)
    qed
  qed simp_all
  with typed show ?thesis by (simp add: fand_reconfigure_def Let_def)
qed

lemma refreshed_row_typed: "refreshed st f \<Longrightarrow> fan_row_typed (fan_row_of f r)"
proof -
  assume "refreshed st f"
  then have "fan_wf f" by (simp add: refreshed_def)
  moreover have "fan_speed_enum_to_string s \<in> {''slow'', ''normal'', ''medium'', ''fast'', ''max''}" for s
    using speed_table.to_string_in_table [of s] by (auto simp: fanspeed_string_def)
  moreover have "- (2 ^ 31) \<le> sint (w :: s32)" "sint (w :: s32) < 2 ^ 31" for w
    using sint_ge [of w] sint_lt [of w] by simp_all
  ultimately show ?thesis
    by (auto simp: fan_row_typed_def fan_row_of_def fan_wf_def fan_status_enum_to_string_def fanstatus_string_def)
qed

lemma status_read_typed:
  assumes P: "shash_ok P" "commit_atomic P" and s: "status_read P st st'" and typed: "idl_typed (idl st)"
  shows "idl_typed (idl st')"
proof -
  have mir: "fan_row_typed (mirror P st' r)" if "r \<in> set (idl_fans (idl st))" for r
    using mirror_row [OF P(1) s that] s by (metis refreshed_row_typed status_read_def)
  have "idl_fans (idl st') \<in> {idl_fans (idl st), map (mirror P st') (idl_fans (idl st))}"
    using s P(2) unfolding status_read_def commit_atomic_def
    by (metis insertE insertI1 insertI2 singletonD staged_fans)
  with typed mir show ?thesis by (auto simp: idl_typed_def)
qed

end
