(* ===== verification/Transitions.thy ===== *)
theory Transitions
  imports Main
begin

text \<open>
  Labelled transition systems, given by a predicate on initial states and a step relation: their
  reachable states and their runs with the labels of the steps, inductive invariants, systems whose
  environment keeps to a condition on the labels, and refinement mappings.
\<close>

section \<open>Reachable states and runs\<close>

inductive reach :: "('p \<Rightarrow> bool) \<Rightarrow> ('p \<Rightarrow> 'l \<Rightarrow> 'p \<Rightarrow> bool) \<Rightarrow> 'p \<Rightarrow> bool"
  for init :: "'p \<Rightarrow> bool" and step :: "'p \<Rightarrow> 'l \<Rightarrow> 'p \<Rightarrow> bool" where
  start: "init p \<Longrightarrow> reach init step p"
| step: "reach init step p \<Longrightarrow> step p l p' \<Longrightarrow> reach init step p'"

inductive runs :: "('p \<Rightarrow> bool) \<Rightarrow> ('p \<Rightarrow> 'l \<Rightarrow> 'p \<Rightarrow> bool) \<Rightarrow> 'l list \<Rightarrow> 'p \<Rightarrow> bool"
  for init :: "'p \<Rightarrow> bool" and step :: "'p \<Rightarrow> 'l \<Rightarrow> 'p \<Rightarrow> bool" where
  start: "init p \<Longrightarrow> runs init step [] p"
| step: "runs init step ls p \<Longrightarrow> step p l p' \<Longrightarrow> runs init step (ls @ [l]) p'"

lemma runs_reach: "runs init step ls p \<Longrightarrow> reach init step p"
  by (induction rule: runs.induct) (auto intro: reach.intros)

lemma reach_mono:
  assumes "reach init step p" "\<And>p. init p \<Longrightarrow> init' p" "\<And>p l p'. step p l p' \<Longrightarrow> step' p l p'"
  shows "reach init' step' p"
  using assms(1) by (induction rule: reach.induct) (auto intro: reach.intros assms(2,3))

text \<open>The steps whose labels satisfy a condition.\<close>

definition restrict :: "('l \<Rightarrow> bool) \<Rightarrow> ('p \<Rightarrow> 'l \<Rightarrow> 'p \<Rightarrow> bool) \<Rightarrow> 'p \<Rightarrow> 'l \<Rightarrow> 'p \<Rightarrow> bool" where
  "restrict C step p l p' \<longleftrightarrow> C l \<and> step p l p'"

lemma restrictI: "C l \<Longrightarrow> step p l p' \<Longrightarrow> restrict C step p l p'"
  by (simp add: restrict_def)

lemma restrictD: "restrict C step p l p' \<Longrightarrow> C l" "restrict C step p l p' \<Longrightarrow> step p l p'"
  by (simp_all add: restrict_def)

section \<open>Invariants\<close>

locale invariant_system =
  fixes init :: "'p \<Rightarrow> bool" and step :: "'p \<Rightarrow> 'l \<Rightarrow> 'p \<Rightarrow> bool" and I :: "'p \<Rightarrow> bool"
  assumes init_inv: "init p \<Longrightarrow> I p"
    and step_inv: "I p \<Longrightarrow> step p l p' \<Longrightarrow> I p'"
begin

lemma reach_inv: "reach init step p \<Longrightarrow> I p"
  by (induction rule: reach.induct) (auto intro: init_inv step_inv)

end

section \<open>Refinement\<close>

text \<open>
  A refinement mapping: under the invariant, every step of the concrete system is a step of the abstract
  one, between the abstractions of its states and with the label's observable part. Then every run is,
  and the abstract system's invariants hold of the abstractions.
\<close>

locale refinement = invariant_system init step I
  for init :: "'p \<Rightarrow> bool" and step :: "'p \<Rightarrow> 'l \<Rightarrow> 'p \<Rightarrow> bool" and I :: "'p \<Rightarrow> bool" +
  fixes abs_init :: "'q \<Rightarrow> bool" and abs_step :: "'q \<Rightarrow> 'm \<Rightarrow> 'q \<Rightarrow> bool"
    and abs :: "'p \<Rightarrow> 'q" and obs :: "'l \<Rightarrow> 'm"
  assumes abs_init: "init p \<Longrightarrow> abs_init (abs p)"
    and abs_step: "I p \<Longrightarrow> step p l p' \<Longrightarrow> abs_step (abs p) (obs l) (abs p')"
begin

lemma runs_refine: "runs init step ls p \<Longrightarrow> runs abs_init abs_step (map obs ls) (abs p)"
proof (induction rule: runs.induct)
  case (step ls p l p')
  then have "abs_step (abs p) (obs l) (abs p')" by (intro abs_step reach_inv runs_reach)
  with step.IH show ?case by (simp add: runs.step)
qed (simp add: runs.start abs_init)

text \<open>A condition of the environment on what can be observed carries over.\<close>

lemma reach_refine:
  assumes "reach init (restrict (\<lambda>l. D (obs l)) step) p"
  shows "reach abs_init (restrict D abs_step) (abs p)"
proof -
  have "I p \<and> reach abs_init (restrict D abs_step) (abs p)" using assms
  proof (induction rule: reach.induct)
    case (start p)
    then show ?case by (simp add: init_inv abs_init reach.start)
  next
    case (step p l p')
    then have "D (obs l)" "step p l p'" by (auto dest: restrictD)
    with step.IH step_inv abs_step show ?case by (blast intro: reach.step restrictI)
  qed
  then show ?thesis ..
qed

end

end
