(* ===== verification/Fand_Daemon.thy ===== *)
theory Fand_Daemon
  imports Fand_Dump Fand_Rows Transitions
begin

text \<open>
  The daemon: what it registers with the database client, its start state, one turn of the main loop,
  and the transition system of all its turns, whose environment chooses the database replica and the
  control commands of every turn.
\<close>

section \<open>Registration\<close>

text \<open>The calls of \<open>fand_init\<close> on the client, lines 371-404.\<close>

datatype idl_call =
    AddTable string
  | AddColumn string string
  | OmitAlert string string

definition fand_init_registration :: "idl_call list" where
  "fand_init_registration =
     [AddTable ''daemon'',
      AddColumn ''daemon'' ''name'',
      AddColumn ''daemon'' ''cur_hw'', OmitAlert ''daemon'' ''cur_hw'',
      AddTable ''fan'',
      AddColumn ''fan'' ''name'', OmitAlert ''fan'' ''name'',
      AddColumn ''fan'' ''speed'', OmitAlert ''fan'' ''speed'',
      AddColumn ''fan'' ''direction'', OmitAlert ''fan'' ''direction'',
      AddColumn ''fan'' ''rpm'', OmitAlert ''fan'' ''rpm'',
      AddColumn ''fan'' ''status'', OmitAlert ''fan'' ''status'',
      AddTable ''temp_sensor'',
      AddColumn ''temp_sensor'' ''fan_state'',
      AddTable ''subsystem'',
      AddColumn ''subsystem'' ''other_config'',
      AddColumn ''subsystem'' ''name'',
      AddColumn ''subsystem'' ''hw_desc_dir'',
      AddColumn ''subsystem'' ''temp_sensors'',
      AddColumn ''subsystem'' ''fans'', OmitAlert ''subsystem'' ''fans'']"

section \<open>The start\<close>

text \<open>Lines 353-369; \<open>y\<close> is the new yaml handle and \<open>i\<close> the new replica.\<close>

definition fand_init :: "('s, 'y, 'h) platform \<Rightarrow> 'y \<Rightarrow> ovsdb_idl \<Rightarrow> ('s, 'y, 'h) fand \<Rightarrow> ('s, 'y, 'h) fand" where
  "fand_init P y i st =
     (init_subsystems P st)\<lparr>yaml_handle := y, idl := i, idl_seqno := idl_get_seqno i\<rparr>"

text \<open>Before \<open>fand_init\<close>: no block is allocated, \<open>cur_hw_set\<close> is \<open>false\<close>, nothing has been done.\<close>

definition program_start :: "('s, 'y, 'h) fand \<Rightarrow> bool" where
  "program_start st \<longleftrightarrow> no_blocks st \<and> \<not> cur_hw_set st \<and> io st = []"

section \<open>One turn of the main loop\<close>

text \<open>The C function is called \<open>fand_run__\<close>.\<close>

definition fand_run_body :: "('s, 'y, 'h) platform \<Rightarrow> ('s, 'y, 'h) fand \<Rightarrow> fault + ('s, 'y, 'h) fand" where
  "fand_run_body P st = fand_read_status P st"

text \<open>\<open>i\<close> is the replica that \<open>ovsdb_idl_run\<close> leaves. The parent process is released after each turn
  with the lock; for the library only the first of these calls counts.\<close>

definition fand_run :: "('s, 'y, 'h) platform \<Rightarrow> ovsdb_idl \<Rightarrow>
    ('s, 'y, 'h) fand \<Rightarrow> fault + ('s, 'y, 'h) fand" where
  "fand_run P i st =
     (let st = st\<lparr>idl := i\<rparr>
      in if idl_is_lock_contended (idl st) then Inr st
         else if \<not> idl_has_lock (idl st) then Inr st
         else
           and_then (fand_reconfigure P st) (\<lambda>st.
           and_then (fand_run_body P st) (\<lambda>st.
             Inr (log_io DaemonizeComplete st))))"

text \<open>The commands of the control socket, and what \<open>unixctl_server_run\<close> does for a list of them.\<close>

datatype unixctl_command = DumpCmd | ExitCmd

definition ops_fand_exit :: "bool \<Rightarrow> bool" where
  "ops_fand_exit exiting = True"

primrec unixctl_server_run :: "('s, 'y, 'h) platform \<Rightarrow> ('s, 'y, 'h) fand \<Rightarrow> unixctl_command list \<Rightarrow>
    bool \<Rightarrow> fault + string option list \<times> bool" where
  "unixctl_server_run P st [] exiting = Inr ([], exiting)"
| "unixctl_server_run P st (c # cs) exiting =
     (case c of
        DumpCmd \<Rightarrow>
          and_then (fand_unixctl_dump P st) (\<lambda>text.
          and_then (unixctl_server_run P st cs exiting) (\<lambda>(replies, exiting). Inr (Some text # replies, exiting)))
      | ExitCmd \<Rightarrow>
          and_then (unixctl_server_run P st cs (ops_fand_exit exiting)) (\<lambda>(replies, exiting).
            Inr (None # replies, exiting)))"

text \<open>What a turn asks to be woken by before it blocks; the timer is in milliseconds.\<close>

datatype wake = WakeIdl | WakeTimer nat | WakeUnixctl | WakeNow

definition FAN_POLL_INTERVAL :: nat where "FAN_POLL_INTERVAL = 5"
definition MSEC_PER_SEC :: nat where "MSEC_PER_SEC = 1000"

definition fand_wait :: "wake list" where
  "fand_wait = [WakeIdl, WakeTimer (FAN_POLL_INTERVAL * MSEC_PER_SEC)]"

definition main_wait :: "bool \<Rightarrow> wake list" where
  "main_wait exiting = fand_wait @ [WakeUnixctl] @ (if exiting then [WakeNow] else [])"

definition main_turn :: "('s, 'y, 'h) platform \<Rightarrow> ovsdb_idl \<Rightarrow> unixctl_command list \<Rightarrow>
    ('s, 'y, 'h) fand \<Rightarrow> fault + ('s, 'y, 'h) fand \<times> string option list \<times> bool \<times> wake list" where
  "main_turn P i cmds st =
     and_then (fand_run P i st) (\<lambda>st.
     and_then (unixctl_server_run P st cmds False) (\<lambda>(replies, exiting).
       Inr (st, replies, exiting, main_wait exiting)))"

section \<open>The transition system\<close>

datatype 'a process = Running 'a | Exited | Crashed fault

inductive main_step :: "('s, 'y, 'h) platform \<Rightarrow> ('s, 'y, 'h) fand process \<Rightarrow>
    ovsdb_idl \<times> unixctl_command list \<times> string option list \<times> wake list \<Rightarrow> ('s, 'y, 'h) fand process \<Rightarrow> bool"
  for P :: "('s, 'y, 'h) platform" where
  turn: "main_turn P i cmds st = Inr (st', replies, False, wakes) \<Longrightarrow>
    main_step P (Running st) (i, cmds, replies, wakes) (Running st')"
| turn_exit: "main_turn P i cmds st = Inr (st', replies, True, wakes) \<Longrightarrow>
    main_step P (Running st) (i, cmds, replies, wakes) Exited"
| turn_crash: "main_turn P i cmds st = Inl e \<Longrightarrow>
    main_step P (Running st) (i, cmds, [], []) (Crashed e)"

inductive_simps main_step_simps: "main_step P (Running st) l p"
inductive_cases main_step_runningE: "main_step P (Running st) l p"
inductive_cases main_step_exitedE: "main_step P Exited l p"
inductive_cases main_step_crashedE: "main_step P (Crashed e) l p"

section \<open>The invariant between turns\<close>

definition platform_ok :: "('s, 'y, 'h) platform \<Rightarrow> bool" where
  "platform_ok P \<longleftrightarrow> shash_ok P \<and> yaml_ok P \<and> fan_names_ok P"

text \<open>The heap is well formed, and every cached fan has been read from the hardware.\<close>

definition daemon_inv :: "('s, 'y, 'h) platform \<Rightarrow> ('s, 'y, 'h) fand \<Rightarrow> bool" where
  "daemon_inv P st \<longleftrightarrow> fand_inv P st \<and> (\<forall>p f. fan_mem st p = Some f \<longrightarrow> fan_wf f)"

definition process_ok :: "('s, 'y, 'h) platform \<Rightarrow> ('s, 'y, 'h) fand process \<Rightarrow> bool" where
  "process_ok P p \<longleftrightarrow> platform_ok P \<and> (case p of
     Running st \<Rightarrow> daemon_inv P st
   | Exited \<Rightarrow> True
   | Crashed e \<Rightarrow> e \<in> {SignedOverflow, NullDeref})"

definition process_start :: "('s, 'y, 'h) platform \<Rightarrow> ('s, 'y, 'h) fand process \<Rightarrow> bool" where
  "process_start P p \<longleftrightarrow> platform_ok P \<and> (\<exists>y i st. program_start st \<and> p = Running (fand_init P y i st))"

lemma fand_init_inv: "shash_ok P \<Longrightarrow> program_start st \<Longrightarrow> daemon_inv P (fand_init P y i st)"
proof -
  assume P: "shash_ok P" and st: "program_start st"
  have "fand_inv P (fand_init P y i st)"
    using P st by (simp add: fand_inv_defs fand_init_def init_subsystems_def program_start_def no_blocks_def)
  moreover have "fan_mem (fand_init P y i st) = Map.empty"
    using st by (simp add: fand_init_def init_subsystems_def program_start_def no_blocks_def)
  ultimately show ?thesis by (simp add: daemon_inv_def)
qed

lemma status_read_inv: "status_read P st st' \<Longrightarrow> daemon_inv P st'"
  by (auto simp: status_read_def daemon_inv_def refreshed_def)

text \<open>A turn without the lock does nothing; one with it reconfigures and reads the status.\<close>

definition locked :: "ovsdb_idl \<Rightarrow> bool" where
  "locked i \<longleftrightarrow> \<not> idl_is_lock_contended i \<and> idl_has_lock i"

lemma fand_run_unlocked: "\<not> locked i \<Longrightarrow> fand_run P i st = Inr (st\<lparr>idl := i\<rparr>)"
  by (auto simp: locked_def fand_run_def Let_def)

lemma fand_run_locked:
  "locked i \<Longrightarrow> fand_run P i st =
    and_then (fand_reconfigure P (st\<lparr>idl := i\<rparr>)) (\<lambda>st.
    and_then (fand_read_status P st) (\<lambda>st. Inr (log_io DaemonizeComplete st)))"
  by (simp add: locked_def fand_run_def fand_run_body_def Let_def)

lemma daemon_inv_log [simp]: "daemon_inv P (log_io e st) = daemon_inv P st"
  by (simp add: daemon_inv_def)

lemma fand_run_post:
  assumes P: "platform_ok P" and inv: "daemon_inv P st"
  shows "post {SignedOverflow, NullDeref} (daemon_inv P) (fand_run P i st)"
proof (cases "locked i")
  case True
  let ?st = "st\<lparr>idl := i\<rparr>"
  have P': "shash_ok P" "yaml_ok P" "fan_names_ok P" using P by (simp_all add: platform_ok_def)
  have inv': "fand_inv P ?st" using inv by (simp add: daemon_inv_def)
  have "post {SignedOverflow, NullDeref} (daemon_inv P) (and_then (fand_reconfigure P ?st) (\<lambda>st.
      and_then (fand_read_status P st) (\<lambda>st. Inr (log_io DaemonizeComplete st))))"
  proof (rule post_and_then, rule post_weaken)
    show "post {} (\<lambda>st'. fand_inv P st' \<and> cur_hw_set st' = cur_hw_set ?st) (fand_reconfigure P ?st)"
      using fand_reconfigure_inv [OF P' inv'] .
    fix s assume "fand_inv P s \<and> cur_hw_set s = cur_hw_set ?st"
    then have "fand_inv P s" by simp
    from fand_read_status_post [OF P'(1,2) this]
    have "post {SignedOverflow, NullDeref} (daemon_inv P) (fand_read_status P s)"
      by (rule post_weaken) (auto dest: status_read_inv split: if_splits)
    then show "post {SignedOverflow, NullDeref} (daemon_inv P)
        (and_then (fand_read_status P s) (\<lambda>st. Inr (log_io DaemonizeComplete st)))"
      by (rule post_and_then) simp
  qed auto
  with True show ?thesis by (simp add: fand_run_locked)
next
  case False
  with inv show ?thesis by (simp add: fand_run_unlocked daemon_inv_def)
qed

lemma unixctl_server_run_total:
  assumes "fand_inv P st"
  shows "\<exists>replies. unixctl_server_run P st cmds exiting = Inr (replies, exiting \<or> ExitCmd \<in> set cmds)"
proof (induction cmds arbitrary: exiting)
  case (Cons c cs)
  show ?case
  proof (cases c)
    case DumpCmd
    with Cons [of exiting] fand_unixctl_dump_eq [OF assms] show ?thesis by auto
  next
    case ExitCmd
    with Cons [of True] show ?thesis by (auto simp: ops_fand_exit_def)
  qed
qed simp

lemma main_turn_post:
  assumes P: "platform_ok P" and inv: "daemon_inv P st"
  shows "post {SignedOverflow, NullDeref} (\<lambda>(st', replies, exiting, wakes). daemon_inv P st' \<and>
    (exiting \<longleftrightarrow> ExitCmd \<in> set cmds) \<and> wakes = main_wait exiting) (main_turn P i cmds st)"
  unfolding main_turn_def using fand_run_post [OF P inv]
proof (rule post_and_then)
  fix s assume s: "daemon_inv P s"
  then have "fand_inv P s" by (simp add: daemon_inv_def)
  from unixctl_server_run_total [OF this, of cmds False] s
  show "post {SignedOverflow, NullDeref} (\<lambda>(st', replies, exiting, wakes). daemon_inv P st' \<and>
      (exiting \<longleftrightarrow> ExitCmd \<in> set cmds) \<and> wakes = main_wait exiting)
    (and_then (unixctl_server_run P s cmds False) (\<lambda>(replies, exiting). Inr (s, replies, exiting, main_wait exiting)))" by auto
qed

interpretation daemon_system: invariant_system "process_start P" "main_step P" "process_ok P"
  for P :: "('s, 'y, 'h) platform"
proof
  fix p assume "process_start P p"
  then show "process_ok P p"
    by (auto simp: process_start_def process_ok_def platform_ok_def intro: fand_init_inv)
next
  fix p l p' assume ok: "process_ok P p" and step: "main_step P p l p'"
  from step show "process_ok P p'"
  proof cases
    case (turn i cmds st st' replies wakes)
    with ok main_turn_post [of P st cmds i] show ?thesis by (simp add: process_ok_def)
  next
    case (turn_exit i cmds st st' replies wakes)
    with ok show ?thesis by (simp add: process_ok_def)
  next
    case (turn_crash i cmds st e)
    with ok main_turn_post [of P st cmds i] show ?thesis by (simp add: process_ok_def)
  qed
qed

section \<open>Properties\<close>

text \<open>
  C1: the daemon's life. From the start of the program on, whatever replicas and control commands the
  environment chooses for the turns of the main loop, the daemon never touches freed memory and never
  runs into an assertion: while it runs, its tables and its heap agree and every cached fan holds
  readings; it can only crash by an rpm overflow or by following a NULL pointer.
\<close>

theorem daemon_safe:
  assumes "reach (process_start P) (main_step P) p"
  shows "case p of
      Running st \<Rightarrow> fand_inv P st \<and> (\<forall>q f. fan_mem st q = Some f \<longrightarrow> fan_wf f)
    | Exited \<Rightarrow> True
    | Crashed e \<Rightarrow> e = SignedOverflow \<or> e = NullDeref"
  using daemon_system.reach_inv [OF assms]
  by (cases p) (auto simp: process_ok_def daemon_inv_def)

text \<open>
  C11: the only NULL pointer. If a turn of a well-formed daemon follows a NULL pointer, then the
  reconfiguration of that turn had completed, and the replica that the turn received already held a Fan
  row that no fan of the daemon has the name of: the rows that the daemon adds itself are never the cause.
\<close>

theorem null_only_from_unknown_row:
  assumes "platform_ok P" "fan_insert_ok P" "commit_atomic P" "daemon_inv P st"
    and "distinct (map os_name (idl_subsystems i))" "fand_run P i st = Inl NullDeref"
  shows "\<exists>st1. fand_reconfigure P (st\<lparr>idl := i\<rparr>) = Inr st1 \<and> fand_inv P st1 \<and>
    (\<exists>r \<in> set (idl_fans i). of_name r \<notin> fst ` set (shash_nodes P (fan_data st1)))"
proof -
  have P: "shash_ok P" "yaml_ok P" "fan_names_ok P" using assms(1) by (simp_all add: platform_ok_def)
  have inv: "fand_inv P (st\<lparr>idl := i\<rparr>)" using assms(4) by (simp add: daemon_inv_def)
  from post_total [OF fand_reconfigure_inv [OF P inv]] obtain st1
    where r: "fand_reconfigure P (st\<lparr>idl := i\<rparr>) = Inr st1" and i1: "fand_inv P st1" by blast
  with assms(6) have "fand_read_status P st1 = Inl NullDeref"
    by (cases "locked i"; cases "fand_read_status P st1") (simp_all add: fand_run_locked fand_run_unlocked)
  with fand_read_status_post [OF P(1,2) i1] have "\<not> rows_known P st1" by auto
  then obtain row where "row \<in> set (idl_fans (idl st1))" "of_name row \<notin> fst ` set (shash_nodes P (fan_data st1))"
    by (auto simp: rows_known_def)
  with reconfigure_fan_rows [OF P assms(2,3) inv _ this(1) r] assms(5)
  have "row \<in> set (idl_fans i)" by simp
  with \<open>of_name row \<notin> _\<close> r i1 show ?thesis by blast
qed

text \<open>
  C13: the Fan table stays well typed. If every Fan row of the replica has values that the schema admits
  (an enumerator's name as status, direction and speed, an rpm that is an \<open>int\<close>), then so has every row
  after a completed turn, whether its transactions were committed or not.
\<close>

theorem fan_rows_typed:
  assumes "platform_ok P" "fan_insert_ok P" "commit_atomic P" "daemon_inv P st"
    and "idl_typed i" "fand_run P i st = Inr st'"
  shows "idl_typed (idl st')"
proof (cases "locked i")
  case False
  with assms(5,6) show ?thesis by (auto simp: fand_run_unlocked)
next
  case True
  let ?st = "st\<lparr>idl := i\<rparr>"
  have P: "shash_ok P" "yaml_ok P" "fan_names_ok P" using assms(1) by (simp_all add: platform_ok_def)
  have inv: "fand_inv P ?st" using assms(4) by (simp add: daemon_inv_def)
  from post_total [OF fand_reconfigure_inv [OF P inv]] obtain st1
    where r: "fand_reconfigure P ?st = Inr st1" and i1: "fand_inv P st1" by blast
  from reconfigure_typed [OF P assms(2,3) inv] assms(5) r have typed: "idl_typed (idl st1)" by simp
  from True r assms(6) obtain st2 where 2: "fand_read_status P st1 = Inr st2" "st' = log_io DaemonizeComplete st2"
    by (auto simp: fand_run_locked and_then_Inr_iff)
  with fand_read_status_post [OF P(1,2) i1] have "status_read P st1 st2" by simp
  from status_read_typed [OF P(1) assms(3) this typed] show ?thesis by (simp add: 2(2))
qed

text \<open>
  C32: the main loop ends by command only, and never stalls. A turn of a running daemon that does not
  crash serves every command, with a reply each, and the process then exits exactly when one of them was
  \<open>exit\<close>; the wait after the turn is at most five seconds long, and none at all before an exit.
\<close>

theorem exit_by_command:
  assumes "platform_ok P" "daemon_inv P st" "main_step P (Running st) (i, cmds, replies, wakes) p"
  shows "(\<exists>e. p = Crashed e) \<or> length replies = length cmds \<and>
    (p = Exited \<longleftrightarrow> ExitCmd \<in> set cmds) \<and> (p \<noteq> Exited \<longrightarrow> (\<exists>st'. p = Running st' \<and> daemon_inv P st')) \<and>
    WakeTimer 5000 \<in> set wakes \<and> (WakeNow \<in> set wakes \<longleftrightarrow> p = Exited)"
proof -
  have len: "length rs = length cs" if "unixctl_server_run P s cs b = Inr (rs, e)" for s cs b rs e
    using that by (induction cs arbitrary: b rs e)
      (auto simp: and_then_Inr_iff split: unixctl_command.splits)
  have wait: "WakeTimer 5000 \<in> set (main_wait e)" "WakeNow \<in> set (main_wait e) \<longleftrightarrow> e" for e
    by (simp_all add: main_wait_def fand_wait_def FAN_POLL_INTERVAL_def MSEC_PER_SEC_def)
  have turn: "length rs = length cmds \<and> (e \<longleftrightarrow> ExitCmd \<in> set cmds) \<and> daemon_inv P st' \<and> ws = main_wait e"
    if "main_turn P i cmds st = Inr (st', rs, e, ws)" for st' rs e ws
    using that main_turn_post [OF assms(1,2), of cmds i]
    by (auto simp: main_turn_def and_then_Inr_iff dest: len)
  from assms(3) show ?thesis
    by (cases rule: main_step_runningE) (auto simp: wait dest: turn)
qed

end
