(* ===== verification/Getopt.thy ===== *)
theory Getopt
  imports Prelude
begin

text \<open>
  The part of the C library that the daemon's command line goes through: \<open>getopt_long\<close> of GNU libc,
  one call at a time over an explicit scanner state, with its argument permutation, clusters of short
  options, abbreviated long options and the three kinds of option arguments. A call that returns an
  option consumes some of the input.
\<close>

section \<open>Options and the scanner\<close>

datatype has_arg = no_argument | required_argument | optional_argument

text \<open>\<open>struct option\<close>; the field \<open>flag\<close> is NULL in every table of the daemon.\<close>

record long_option =
  lo_name :: string
  lo_has_arg :: has_arg
  lo_val :: int

text \<open>
  The arguments that have not been scanned, those that were skipped as non-options, and the rest of the
  cluster of short options that is being scanned. Together the first two are what follows \<open>optind\<close>
  when the scanner has returned -1.
\<close>

record getopt =
  go_rest :: "string list"
  go_skipped :: "string list"
  go_cluster :: string

definition getopt_start :: "string list \<Rightarrow> getopt" where
  "getopt_start args = \<lparr>go_rest = args, go_skipped = [], go_cluster = []\<rparr>"

definition getopt_operands :: "getopt \<Rightarrow> string list" where
  "getopt_operands g = go_skipped g @ go_rest g"

definition is_option :: "string \<Rightarrow> bool" where
  "is_option a \<longleftrightarrow> take 1 a = ''-'' \<and> a \<noteq> ''-''"

section \<open>One call\<close>

text \<open>The character \<open>?\<close>, which stands for every error.\<close>

definition getopt_error :: int where
  "getopt_error = 63"

text \<open>The argument kind of a short option, from the string of short options.\<close>

definition short_option :: "string \<Rightarrow> char \<Rightarrow> has_arg option" where
  "short_option opts c =
     (if c = CHR '':'' \<or> c = CHR '';'' then None
      else case dropWhile (\<lambda>d. d \<noteq> c) opts of
        [] \<Rightarrow> None
      | _ # t \<Rightarrow> Some (if take 2 t = ''::'' then optional_argument
                    else if take 1 t = '':'' then required_argument else no_argument))"

text \<open>
  A long option is found by its exact name, or by an abbreviation that only options of the same
  argument kind and value have in common.
\<close>

definition match_long :: "long_option list \<Rightarrow> string \<Rightarrow> long_option option" where
  "match_long os n =
     (case find (\<lambda>e. lo_name e = n) os of
        Some e \<Rightarrow> Some e
      | None \<Rightarrow>
          (case filter (\<lambda>e. take (length n) (lo_name e) = n) os of
             [] \<Rightarrow> None
           | e # es \<Rightarrow>
               if list_all (\<lambda>p. lo_has_arg p = lo_has_arg e \<and> lo_val p = lo_val e) es then Some e else None))"

text \<open>The option's argument: the attached one, or the next argument when one is required.\<close>

definition option_argument :: "has_arg \<Rightarrow> string option \<Rightarrow> string list \<Rightarrow> (string option \<times> string list) option" where
  "option_argument h attached rest =
     (case h of
        no_argument \<Rightarrow> (case attached of None \<Rightarrow> Some (None, rest) | Some _ \<Rightarrow> None)
      | optional_argument \<Rightarrow> Some (attached, rest)
      | required_argument \<Rightarrow>
          (case attached of
             Some v \<Rightarrow> Some (Some v, rest)
           | None \<Rightarrow> (case rest of [] \<Rightarrow> None | a # rest \<Rightarrow> Some (Some a, rest))))"

text \<open>The word after the two dashes, up to the equals sign, and what follows that.\<close>

definition split_equals :: "string \<Rightarrow> string \<times> string option" where
  "split_equals w =
     (takeWhile (\<lambda>c. c \<noteq> CHR ''='') w,
      case dropWhile (\<lambda>c. c \<noteq> CHR ''='') w of [] \<Rightarrow> None | _ # v \<Rightarrow> Some v)"

definition scan_long :: "long_option list \<Rightarrow> string \<Rightarrow> getopt \<Rightarrow> (int \<times> string option) \<times> getopt" where
  "scan_long os w g =
     (let (n, attached) = split_equals w in
      case match_long os n of
        None \<Rightarrow> ((getopt_error, None), g)
      | Some e \<Rightarrow>
          (case option_argument (lo_has_arg e) attached (go_rest g) of
             None \<Rightarrow> ((getopt_error, None), g)
           | Some (v, rest) \<Rightarrow> ((lo_val e, v), g\<lparr>go_rest := rest\<rparr>)))"

text \<open>The next option of a cluster; the rest of the cluster is the argument of an option that takes one.\<close>

definition scan_argument :: "has_arg \<Rightarrow> char \<Rightarrow> string \<Rightarrow> getopt \<Rightarrow> (int \<times> string option) \<times> getopt" where
  "scan_argument h c cs g =
     (case option_argument h (if cs = [] then None else Some cs) (go_rest g) of
        None \<Rightarrow> ((getopt_error, None), g\<lparr>go_cluster := []\<rparr>)
      | Some (v, rest) \<Rightarrow> ((of_char c, v), g\<lparr>go_cluster := [], go_rest := rest\<rparr>))"

definition scan_short :: "string \<Rightarrow> char \<Rightarrow> string \<Rightarrow> getopt \<Rightarrow> (int \<times> string option) \<times> getopt" where
  "scan_short opts c cs g =
     (case short_option opts c of
        None \<Rightarrow> ((getopt_error, None), g\<lparr>go_cluster := cs\<rparr>)
      | Some h \<Rightarrow>
          if h = no_argument then ((of_char c, None), g\<lparr>go_cluster := cs\<rparr>)
          else scan_argument h c cs g)"

text \<open>Non-options are skipped over, unless the environment asks for POSIX order.\<close>

definition skip_operands :: "bool \<Rightarrow> getopt \<Rightarrow> getopt" where
  "skip_operands posix g =
     (if posix then g
      else g\<lparr>go_skipped := go_skipped g @ takeWhile (\<lambda>a. \<not> is_option a) (go_rest g),
             go_rest := dropWhile (\<lambda>a. \<not> is_option a) (go_rest g)\<rparr>)"

text \<open>One call; \<open>None\<close> is the result -1.\<close>

definition getopt_long :: "bool \<Rightarrow> string \<Rightarrow> long_option list \<Rightarrow> getopt \<Rightarrow> (int \<times> string option) option \<times> getopt" where
  "getopt_long posix opts os g =
     (case go_cluster g of
        c # cs \<Rightarrow> (let (r, g) = scan_short opts c cs g in (Some r, g))
      | [] \<Rightarrow>
          (let g = skip_operands posix g in
           case go_rest g of
             [] \<Rightarrow> (None, g)
           | a # rest \<Rightarrow>
               if a = ''--'' then (None, g\<lparr>go_rest := rest\<rparr>)
               else if \<not> is_option a then (None, g)
               else if take 2 a = ''--'' then
                 (let (r, g) = scan_long os (drop 2 a) (g\<lparr>go_rest := rest\<rparr>) in (Some r, g))
               else (let (r, g) = scan_short opts (a ! 1) (drop 2 a) (g\<lparr>go_rest := rest\<rparr>) in (Some r, g))))"

section \<open>Progress\<close>

text \<open>A call that returns an option has consumed an argument or a character of a cluster.\<close>

definition getopt_todo :: "getopt \<Rightarrow> nat" where
  "getopt_todo g = length (go_cluster g) + sum_list (map (Suc \<circ> length) (go_rest g))"

lemma option_argument_todo:
  "option_argument h v rest = Some (v', rest') \<Longrightarrow>
    sum_list (map (Suc \<circ> length) rest') \<le> sum_list (map (Suc \<circ> length) rest)"
  by (auto simp: option_argument_def split: has_arg.splits option.splits list.splits)

lemma scan_long_todo: "getopt_todo (snd (scan_long os w g)) \<le> getopt_todo g"
  by (auto simp: scan_long_def getopt_todo_def dest: option_argument_todo split: prod.split option.split)

lemma scan_argument_todo:
  "getopt_todo (snd (scan_argument h c cs g)) \<le> sum_list (map (Suc \<circ> length) (go_rest g))"
  unfolding scan_argument_def getopt_todo_def
  by (split option.split) (use option_argument_todo [of h _ "go_rest g"] in auto)

lemma scan_short_todo:
  "getopt_todo (snd (scan_short opts c cs g)) \<le> length cs + sum_list (map (Suc \<circ> length) (go_rest g))"
  using scan_argument_todo [of _ c cs g]
  by (auto simp: scan_short_def getopt_todo_def intro: trans_le_add2 split: option.split)

lemma skip_operands_todo: "getopt_todo (skip_operands posix g) \<le> getopt_todo g"
proof -
  have "sum_list (map (Suc \<circ> length) (dropWhile P xs)) \<le> sum_list (map (Suc \<circ> length) xs)"
    for P and xs :: "string list"
    by (induction xs) auto
  then show ?thesis by (simp add: skip_operands_def getopt_todo_def)
qed

lemma getopt_long_todo:
  assumes "getopt_long posix opts os g = (Some r, g')"
  shows "getopt_todo g' < getopt_todo g"
proof (cases "go_cluster g")
  case (Cons c cs)
  with assms scan_short_todo [of opts c cs g] show ?thesis
    by (auto simp: getopt_long_def getopt_todo_def split: prod.splits)
next
  case Nil
  define h where "h = skip_operands posix g"
  have h: "go_cluster h = []" "getopt_todo h \<le> getopt_todo g"
    using Nil skip_operands_todo [of posix g] by (simp_all add: h_def skip_operands_def)
  from assms Nil obtain a rest where rest: "go_rest h = a # rest" and a: "is_option a" and
    g': "g' = snd (if take 2 a = ''--'' then scan_long os (drop 2 a) (h\<lparr>go_rest := rest\<rparr>)
      else scan_short opts (a ! 1) (drop 2 a) (h\<lparr>go_rest := rest\<rparr>))"
    by (auto simp: getopt_long_def Let_def h_def [symmetric] split: list.splits if_splits prod.splits)
  have "getopt_todo g' \<le> length (drop 2 a) + sum_list (map (Suc \<circ> length) rest)"
    using scan_long_todo [of os "drop 2 a" "h\<lparr>go_rest := rest\<rparr>"]
      scan_short_todo [of opts "a ! 1" "drop 2 a" "h\<lparr>go_rest := rest\<rparr>"]
    by (auto simp: g' getopt_todo_def h(1))
  with h rest show ?thesis by (simp add: getopt_todo_def)
qed

section \<open>Results\<close>

text \<open>A returned value is an error, or belongs to an option of the table or of the short options.\<close>

definition option_value :: "string \<Rightarrow> long_option list \<Rightarrow> int \<Rightarrow> bool" where
  "option_value opts os c \<longleftrightarrow> c = getopt_error \<or> c \<in> lo_val ` set os \<or>
     (\<exists>d h. short_option opts d = Some h \<and> c = of_char d)"

lemma match_long_in: "match_long os n = Some e \<Longrightarrow> e \<in> set os"
  by (auto simp: match_long_def find_Some_iff filter_eq_Cons_iff split: option.splits list.splits if_splits)

lemma scan_long_value: "option_value opts os (fst (fst (scan_long os w g)))"
  by (auto simp: scan_long_def option_value_def dest: match_long_in split: prod.split option.split)

lemma scan_short_value: "option_value opts os (fst (fst (scan_short opts c cs g)))"
  by (auto simp: scan_short_def scan_argument_def option_value_def split: option.split)

lemma getopt_long_value:
  assumes "getopt_long posix opts os g = (Some (c, v), g')"
  shows "option_value opts os c"
proof -
  have long: "option_value opts os c" if "scan_long os w h = ((c, v), h')" for w h h'
    using scan_long_value [of opts os w h] that by simp
  have short: "option_value opts os c" if "scan_short opts d cs h = ((c, v), h')" for d cs h h'
    using scan_short_value [of opts os d cs h] that by simp
  show ?thesis using assms
    by (auto simp: getopt_long_def Let_def split: list.splits if_splits prod.splits dest: long short)
qed

section \<open>The interface of a scanner\<close>

text \<open>
  What a loop over the options relies on: every call that returns an option makes progress, and what it
  returns is legal. Such a loop returns, and its result is an error only if the handler made that error
  of a legal option.
\<close>

locale option_scanner =
  fixes scan :: "'g \<Rightarrow> 'r option \<times> 'g"
    and todo :: "'g \<Rightarrow> nat"
    and legal :: "'r \<Rightarrow> bool"
  assumes progress: "scan g = (Some r, g') \<Longrightarrow> todo g' < todo g"
    and results: "scan g = (Some r, g') \<Longrightarrow> legal r"
begin

lemma loop_returns:
  fixes f :: "'g \<Rightarrow> 's \<Rightarrow> ('e + 't) option" and h :: "'r \<Rightarrow> 's \<Rightarrow> 'e + 's"
  assumes loop: "\<And>g s. f g s = (case scan g of (None, g) \<Rightarrow> Some (Inr (k s g))
      | (Some r, g) \<Rightarrow> (case h r s of Inl e \<Rightarrow> Some (Inl e) | Inr s \<Rightarrow> f g s))"
  shows "\<exists>r. f g s = Some r \<and> (\<forall>e. r = Inl e \<longrightarrow> (\<exists>v s. legal v \<and> h v s = Inl e))"
proof (induction "todo g" arbitrary: g s rule: less_induct)
  case less
  obtain r g' where r: "scan g = (r, g')" by fastforce
  show ?case
  proof (cases r)
    case None
    with r loop [of g s] show ?thesis by simp
  next
    case (Some v)
    show ?thesis
    proof (cases "h v s")
      case (Inl e)
      with r Some results [of g v g'] loop [of g s] show ?thesis by auto
    next
      case (Inr s')
      with r Some loop [of g s] have "f g s = f g' s'" by simp
      with less [of g' s'] progress [of g v g'] r Some show ?thesis by simp
    qed
  qed
qed

end

interpretation getopt_scanner: option_scanner "getopt_long posix opts os" getopt_todo "\<lambda>(c, v). option_value opts os c"
  for posix opts os
  by unfold_locales (auto intro: getopt_long_todo getopt_long_value)

end
