(* ===== verification/Command_Line.thy ===== *)
theory Command_Line
  imports Getopt
begin

text \<open>
  The grammar of command lines: the words that one may consist of, in every form that \<open>getopt_long\<close>
  reads, and what may end them. A word stands for the arguments it is written as, for the options that
  it gives and for the operand that it is. Every argument vector is a line of this grammar, and the
  scanner returns its options in their order.
\<close>

section \<open>Words\<close>

text \<open>The argument of an option: none, in the same word, or the next word.\<close>

datatype option_arg = No_arg | Attached string | Separate string

primrec arg_value :: "option_arg \<Rightarrow> string option" where
  "arg_value No_arg = None"
| "arg_value (Attached v) = Some v"
| "arg_value (Separate v) = Some v"

primrec attached :: "option_arg \<Rightarrow> string option" where
  "attached No_arg = None"
| "attached (Attached v) = Some v"
| "attached (Separate v) = None"

primrec separate :: "option_arg \<Rightarrow> string list" where
  "separate No_arg = []"
| "separate (Attached v) = []"
| "separate (Separate v) = [v]"

primrec arg_fits :: "option_arg \<Rightarrow> has_arg \<Rightarrow> bool" where
  "arg_fits No_arg h \<longleftrightarrow> h \<noteq> required_argument"
| "arg_fits (Attached v) h \<longleftrightarrow> h \<noteq> no_argument"
| "arg_fits (Separate v) h \<longleftrightarrow> h = required_argument"

text \<open>
  \<open>Long n a\<close> is \<open>--n\<close>, whose name may be abbreviated; \<open>Flags cs\<close> is a cluster of short options without
  arguments, \<open>Short cs c a\<close> one whose last option \<open>c\<close> can have an argument.
\<close>

datatype cmd_word =
    Operand string
  | Long string option_arg
  | Flags string
  | Short string char option_arg

primrec word_args :: "cmd_word \<Rightarrow> string list" where
  "word_args (Operand a) = [a]"
| "word_args (Long n a) =
     (''--'' @ n @ (case attached a of None \<Rightarrow> [] | Some v \<Rightarrow> ''='' @ v)) # separate a"
| "word_args (Flags cs) = [''-'' @ cs]"
| "word_args (Short cs c a) =
     (''-'' @ cs @ [c] @ (case attached a of None \<Rightarrow> [] | Some v \<Rightarrow> v)) # separate a"

definition is_flag :: "string \<Rightarrow> char \<Rightarrow> bool" where
  "is_flag opts c \<longleftrightarrow> short_option opts c = Some no_argument"

definition flag_items :: "string \<Rightarrow> (int \<times> string option) list" where
  "flag_items cs = map (\<lambda>c. (of_char c, None)) cs"

primrec word_items :: "long_option list \<Rightarrow> cmd_word \<Rightarrow> (int \<times> string option) list" where
  "word_items os (Operand a) = []"
| "word_items os (Long n a) = (case match_long os n of None \<Rightarrow> [] | Some e \<Rightarrow> [(lo_val e, arg_value a)])"
| "word_items os (Flags cs) = flag_items cs"
| "word_items os (Short cs c a) = flag_items cs @ [(of_char c, arg_value a)]"

primrec word_operands :: "cmd_word \<Rightarrow> string list" where
  "word_operands (Operand a) = [a]"
| "word_operands (Long n a) = []"
| "word_operands (Flags cs) = []"
| "word_operands (Short cs c a) = []"

primrec word_ok :: "string \<Rightarrow> long_option list \<Rightarrow> cmd_word \<Rightarrow> bool" where
  "word_ok opts os (Operand a) \<longleftrightarrow> \<not> is_option a"
| "word_ok opts os (Long n a) \<longleftrightarrow> CHR ''='' \<notin> set n \<and> (n \<noteq> [] \<or> attached a \<noteq> None) \<and>
     (case match_long os n of None \<Rightarrow> False | Some e \<Rightarrow> arg_fits a (lo_has_arg e))"
| "word_ok opts os (Flags cs) \<longleftrightarrow> cs \<noteq> [] \<and> hd cs \<noteq> CHR ''-'' \<and> list_all (is_flag opts) cs"
| "word_ok opts os (Short cs c a) \<longleftrightarrow> hd (cs @ [c]) \<noteq> CHR ''-'' \<and> list_all (is_flag opts) cs \<and>
     \<not> is_flag opts c \<and> (case short_option opts c of None \<Rightarrow> False | Some h \<Rightarrow> arg_fits a h) \<and> a \<noteq> Attached []"

section \<open>Lines\<close>

text \<open>
  What ends the words: nothing more, \<open>--\<close> with operands only after it, the first operand when the
  environment asks for POSIX order, or an argument that is no option of the program.
\<close>

datatype line_end = End | Dashes "string list" | Stop "string list" | Malformed string "string list"

primrec end_args :: "line_end \<Rightarrow> string list" where
  "end_args End = []"
| "end_args (Dashes as) = ''--'' # as"
| "end_args (Stop as) = as"
| "end_args (Malformed a as) = a # as"

primrec end_operands :: "line_end \<Rightarrow> string list" where
  "end_operands End = []"
| "end_operands (Dashes as) = as"
| "end_operands (Stop as) = as"
| "end_operands (Malformed a as) = as"

text \<open>An unknown or ambiguous name, an argument that is not allowed or one that is missing.\<close>

definition malformed_long :: "long_option list \<Rightarrow> string \<Rightarrow> string list \<Rightarrow> bool" where
  "malformed_long os w as =
     (let (n, v) = split_equals w in
      case match_long os n of
        None \<Rightarrow> True
      | Some e \<Rightarrow> lo_has_arg e = no_argument \<and> v \<noteq> None \<or> lo_has_arg e = required_argument \<and> v = None \<and> as = [])"

definition malformed_short :: "string \<Rightarrow> string \<Rightarrow> string list \<Rightarrow> bool" where
  "malformed_short opts cs as =
     (case dropWhile (is_flag opts) cs of
        [] \<Rightarrow> False
      | c # t \<Rightarrow>
          (case short_option opts c of
             None \<Rightarrow> True
           | Some h \<Rightarrow> h = required_argument \<and> t = [] \<and> as = []))"

primrec end_ok :: "bool \<Rightarrow> string \<Rightarrow> long_option list \<Rightarrow> line_end \<Rightarrow> bool" where
  "end_ok posix opts os End \<longleftrightarrow> True"
| "end_ok posix opts os (Dashes as) \<longleftrightarrow> True"
| "end_ok posix opts os (Stop as) \<longleftrightarrow> posix \<and> as \<noteq> [] \<and> \<not> is_option (hd as)"
| "end_ok posix opts os (Malformed a as) \<longleftrightarrow> is_option a \<and> a \<noteq> ''--'' \<and>
     (if take 2 a = ''--'' then malformed_long os (drop 2 a) as else malformed_short opts (drop 1 a) as)"

text \<open>A malformed argument gives the flags in front of the error, and the error.\<close>

primrec end_items :: "string \<Rightarrow> line_end \<Rightarrow> (int \<times> string option) list" where
  "end_items opts End = []"
| "end_items opts (Dashes as) = []"
| "end_items opts (Stop as) = []"
| "end_items opts (Malformed a as) =
     (if take 2 a = ''--'' then [] else flag_items (takeWhile (is_flag opts) (drop 1 a))) @ [(getopt_error, None)]"

definition line_args :: "cmd_word list \<Rightarrow> line_end \<Rightarrow> string list" where
  "line_args ws e = concat (map word_args ws) @ end_args e"

definition line_items :: "string \<Rightarrow> long_option list \<Rightarrow> cmd_word list \<Rightarrow> line_end \<Rightarrow> (int \<times> string option) list" where
  "line_items opts os ws e = concat (map (word_items os) ws) @ end_items opts e"

definition line_operands :: "cmd_word list \<Rightarrow> line_end \<Rightarrow> string list" where
  "line_operands ws e = concat (map word_operands ws) @ end_operands e"

definition line_ok :: "bool \<Rightarrow> string \<Rightarrow> long_option list \<Rightarrow> cmd_word list \<Rightarrow> line_end \<Rightarrow> bool" where
  "line_ok posix opts os ws e \<longleftrightarrow>
     list_all (\<lambda>w. word_ok opts os w \<and> (posix \<longrightarrow> word_operands w = [])) ws \<and> end_ok posix opts os e"

section \<open>Every argument vector is a line\<close>

lemma split_equals_parts:
  assumes "split_equals w = (n, v)"
  shows "w = n @ (case v of None \<Rightarrow> [] | Some v \<Rightarrow> ''='' @ v)" "CHR ''='' \<notin> set n"
proof -
  have n: "n = takeWhile (\<lambda>c. c \<noteq> CHR ''='') w"
    and v: "v = (case dropWhile (\<lambda>c. c \<noteq> CHR ''='') w of [] \<Rightarrow> None | _ # v \<Rightarrow> Some v)"
    using assms by (simp_all add: split_equals_def)
  show "CHR ''='' \<notin> set n" using n by (auto dest: set_takeWhileD)
  have "dropWhile (\<lambda>c. c \<noteq> CHR ''='') w = (case v of None \<Rightarrow> [] | Some v \<Rightarrow> ''='' @ v)"
    using v by (auto simp: dropWhile_eq_Cons_conv split: list.split)
  with n show "w = n @ (case v of None \<Rightarrow> [] | Some v \<Rightarrow> ''='' @ v)"
    using takeWhile_dropWhile_id [of "\<lambda>c. c \<noteq> CHR ''=''" w] by simp
qed

text \<open>Which word a required or optional argument makes, from what is attached and what follows.\<close>

lemma arg_found:
  assumes "\<not> (h = no_argument \<and> v \<noteq> None \<or> h = required_argument \<and> v = None \<and> as = [])"
  shows "\<exists>a as'. as = separate a @ as' \<and> attached a = v \<and> arg_fits a h"
proof (cases v)
  case (Some x)
  with assms show ?thesis by (intro exI [of _ "Attached x"] exI [of _ as]) simp
next
  case None
  show ?thesis
  proof (cases "h = required_argument")
    case True
    with assms None obtain x as' where "as = x # as'" by (cases as) auto
    with True None show ?thesis by (intro exI [of _ "Separate x"] exI [of _ as']) simp
  next
    case False
    with None show ?thesis by (intro exI [of _ No_arg] exI [of _ as]) simp
  qed
qed

lemma long_word_or_end:
  assumes "w \<noteq> []"
  shows "malformed_long os w as \<or> (\<exists>n a as'. (''--'' @ w) # as = word_args (Long n a) @ as' \<and> word_ok opts os (Long n a))"
proof (cases "malformed_long os w as")
  case False
  obtain n v where nv: "split_equals w = (n, v)" by fastforce
  with False obtain e where e: "match_long os n = Some e"
    and fit: "\<not> (lo_has_arg e = no_argument \<and> v \<noteq> None \<or> lo_has_arg e = required_argument \<and> v = None \<and> as = [])"
    by (auto simp: malformed_long_def split: option.splits)
  from arg_found [OF fit] obtain a as' where a: "as = separate a @ as'" "attached a = v" "arg_fits a (lo_has_arg e)" by blast
  note w = split_equals_parts [OF nv]
  have "word_ok opts os (Long n a)" using w assms a(2,3) e by (cases v) auto
  moreover have "(''--'' @ w) # as = word_args (Long n a) @ as'" using w(1) a(1,2) by simp
  ultimately show ?thesis by blast
qed simp

lemma short_word_or_end:
  assumes "cs \<noteq> []" "hd cs \<noteq> CHR ''-''"
  shows "malformed_short opts cs as \<or>
    (\<exists>w as'. (''-'' @ cs) # as = word_args w @ as' \<and> word_ok opts os w \<and> word_operands w = [])"
proof (cases "malformed_short opts cs as")
  case False
  define fl where "fl = takeWhile (is_flag opts) cs"
  have fl: "list_all (is_flag opts) fl" by (auto simp: fl_def list_all_iff dest: set_takeWhileD)
  have cs: "cs = fl @ dropWhile (is_flag opts) cs" by (simp add: fl_def)
  show ?thesis
  proof (cases "dropWhile (is_flag opts) cs")
    case Nil
    with cs fl assms show ?thesis by (intro disjI2 exI [of _ "Flags cs"] exI [of _ as]) simp
  next
    case (Cons c t)
    then have c: "\<not> is_flag opts c" using hd_dropWhile [of "is_flag opts" cs] by simp
    from False Cons obtain h where h: "short_option opts c = Some h" "\<not> (h = required_argument \<and> t = [] \<and> as = [])"
      by (auto simp: malformed_short_def split: option.splits)
    let ?v = "if t = [] then None else Some t"
    have "h \<noteq> no_argument" using h(1) c by (simp add: is_flag_def)
    with h(2) have "\<not> (h = no_argument \<and> ?v \<noteq> None \<or> h = required_argument \<and> ?v = None \<and> as = [])" by auto
    from arg_found [OF this] obtain a as' where a: "as = separate a @ as'" "attached a = ?v" "arg_fits a h" by blast
    have "hd (fl @ [c]) = hd cs" using cs Cons by (cases fl) simp_all
    then have "word_ok opts os (Short fl c a)" using assms(2) fl c h(1) a(2,3) by (auto split: if_splits)
    moreover have "(''-'' @ cs) # as = word_args (Short fl c a) @ as'" using cs Cons a(1,2) by auto
    ultimately show ?thesis by (intro disjI2 exI [of _ "Short fl c a"] exI [of _ as']) simp
  qed
qed simp

lemma first_word_or_end:
  "(\<exists>e. args = end_args e \<and> end_ok posix opts os e) \<or>
   (\<exists>w rest. args = word_args w @ rest \<and> word_ok opts os w \<and> (posix \<longrightarrow> word_operands w = []))"
proof (cases args)
  case Nil
  then show ?thesis by (intro disjI1 exI [of _ End]) simp
next
  case (Cons a as)
  consider "\<not> is_option a" posix | "\<not> is_option a" "\<not> posix" | "a = ''--''"
    | w where "a = ''--'' @ w" "w \<noteq> []" | cs where "a = ''-'' @ cs" "cs \<noteq> []" "hd cs \<noteq> CHR ''-''"
  proof (cases "is_option a")
    case True
    then obtain cs where cs: "a = CHR ''-'' # cs" "cs \<noteq> []" by (cases a) (auto simp: is_option_def)
    then obtain c t where "cs = c # t" by (cases cs) auto
    with cs that(3-5) show thesis by (cases "c = CHR ''-''"; cases t) auto
  qed (use that(1,2) in blast)
  then show ?thesis
  proof cases
    case 1
    then show ?thesis by (intro disjI1 exI [of _ "Stop args"]) (simp add: Cons)
  next
    case 2
    then show ?thesis by (intro disjI2 exI [of _ "Operand a"] exI [of _ as]) (simp add: Cons)
  next
    case 3
    then show ?thesis by (intro disjI1 exI [of _ "Dashes as"]) (simp add: Cons)
  next
    case (4 w)
    from long_word_or_end [OF 4(2), of os as opts] show ?thesis
    proof
      assume "malformed_long os w as"
      with 4 show ?thesis by (intro disjI1 exI [of _ "Malformed a as"]) (simp add: Cons is_option_def)
    next
      assume "\<exists>n a as'. (''--'' @ w) # as = word_args (Long n a) @ as' \<and> word_ok opts os (Long n a)"
      then show ?thesis unfolding Cons 4(1) by (metis word_operands.simps(2))
    qed
  next
    case (5 cs)
    from short_word_or_end [OF 5(2,3), of opts as os] show ?thesis
    proof
      assume "malformed_short opts cs as"
      moreover from 5 have "take 2 a \<noteq> ''--''" by (cases cs) auto
      ultimately show ?thesis using 5 by (intro disjI1 exI [of _ "Malformed a as"]) (auto simp: Cons is_option_def)
    qed (unfold Cons 5(1), blast)
  qed
qed

lemma line_exists: "\<exists>ws e. line_ok posix opts os ws e \<and> line_args ws e = args"
proof (induction "length args" arbitrary: args rule: less_induct)
  case less
  from first_word_or_end [of args posix opts os] show ?case
  proof
    assume "\<exists>e. args = end_args e \<and> end_ok posix opts os e"
    then obtain e where "args = end_args e" "end_ok posix opts os e" by blast
    then show ?thesis by (intro exI [of _ "[]"] exI [of _ e]) (simp add: line_ok_def line_args_def)
  next
    assume "\<exists>w rest. args = word_args w @ rest \<and> word_ok opts os w \<and> (posix \<longrightarrow> word_operands w = [])"
    then obtain w rest where w: "args = word_args w @ rest" "word_ok opts os w" "posix \<longrightarrow> word_operands w = []" by blast
    have "0 < length (word_args w)" by (cases w) simp_all
    with w(1) less [of rest] obtain ws e where "line_ok posix opts os ws e" "line_args ws e = rest" by auto
    with w show ?thesis by (intro exI [of _ "w # ws"] exI [of _ e]) (simp add: line_ok_def line_args_def)
  qed
qed

section \<open>The scanner reads lines\<close>

text \<open>A run of the scanner over the options it returns.\<close>

inductive scans :: "bool \<Rightarrow> string \<Rightarrow> long_option list \<Rightarrow> getopt \<Rightarrow> (int \<times> string option) list \<Rightarrow> getopt \<Rightarrow> bool"
  for posix opts os where
  refl: "scans posix opts os g [] g"
| step: "getopt_long posix opts os g = (Some r, h) \<Longrightarrow> scans posix opts os h rs g' \<Longrightarrow> scans posix opts os g (r # rs) g'"

lemma scans_one: "getopt_long posix opts os g = (Some r, h) \<Longrightarrow> scans posix opts os g [r] h"
  by (blast intro: scans.intros)

lemma scans_trans:
  "scans posix opts os g rs h \<Longrightarrow> scans posix opts os h rs' g' \<Longrightarrow> scans posix opts os g (rs @ rs') g'"
  by (induction rule: scans.induct) (auto intro: scans.step)

abbreviation scanner :: "string list \<Rightarrow> string list \<Rightarrow> string \<Rightarrow> getopt" where
  "scanner sk rest cl \<equiv> \<lparr>go_rest = rest, go_skipped = sk, go_cluster = cl\<rparr>"

lemma scans_flags:
  "list_all (is_flag opts) cs \<Longrightarrow> scans posix opts os (scanner sk rest (cs @ t)) (flag_items cs) (scanner sk rest t)"
proof (induction cs)
  case Nil
  show ?case by (simp add: flag_items_def scans.refl)
next
  case (Cons c cs)
  then have "getopt_long posix opts os (scanner sk rest (c # cs @ t)) = (Some (of_char c, None), scanner sk rest (cs @ t))"
    by (simp add: getopt_long_def scan_short_def is_flag_def)
  from scans.step [OF this] Cons show ?case by (simp add: flag_items_def)
qed

text \<open>The first option of a cluster is read as if the scanner were inside the cluster already.\<close>

lemma scan_short_cluster: "scan_short opts c cs (g\<lparr>go_cluster := t\<rparr>) = scan_short opts c cs g"
  by (simp add: scan_short_def scan_argument_def split: option.split)

lemma scans_cluster:
  assumes "scans posix opts os (scanner sk rest (c # cs)) rs g'" "rs \<noteq> []" "c \<noteq> CHR ''-''"
  shows "scans posix opts os (scanner sk ((''-'' @ c # cs) # rest) []) rs g'"
proof -
  have "getopt_long posix opts os (scanner sk ((''-'' @ c # cs) # rest) []) =
      getopt_long posix opts os (scanner sk rest (c # cs))"
    using assms(3) scan_short_cluster [where g = "scanner sk rest []" and t = "c # cs"]
    by (simp add: getopt_long_def skip_operands_def is_option_def)
  with assms(1,2) show ?thesis by (cases rule: scans.cases) (auto intro: scans.step)
qed

lemma option_argument_fits:
  "arg_fits a h \<Longrightarrow> option_argument h (attached a) (separate a @ rest) = Some (arg_value a, rest)"
  by (cases a; cases h) (simp_all add: option_argument_def)

lemma scan_short_argument:
  assumes "short_option opts c = Some h" "\<not> is_flag opts c" "arg_fits a h" "a \<noteq> Attached []"
  shows "scans posix opts os (scanner sk (separate a @ rest) (c # (case attached a of None \<Rightarrow> [] | Some v \<Rightarrow> v)))
    [(of_char c, arg_value a)] (scanner sk rest [])"
proof -
  let ?t = "case attached a of None \<Rightarrow> [] | Some v \<Rightarrow> v"
  have "(if ?t = [] then None else Some ?t) = attached a" using assms(4) by (cases a) auto
  with option_argument_fits [OF assms(3), of rest] assms(1,2) show ?thesis
    by (intro scans_one) (simp add: getopt_long_def scan_short_def scan_argument_def is_flag_def)
qed

lemma split_equals_joined:
  assumes "CHR ''='' \<notin> set n"
  shows "split_equals (n @ (case v of None \<Rightarrow> [] | Some v \<Rightarrow> ''='' @ v)) = (n, v)"
proof -
  have eq: "takeWhile (\<lambda>c. c \<noteq> CHR ''='') (n @ t) = n @ takeWhile (\<lambda>c. c \<noteq> CHR ''='') t"
    "dropWhile (\<lambda>c. c \<noteq> CHR ''='') (n @ t) = dropWhile (\<lambda>c. c \<noteq> CHR ''='') t" for t
    using assms by (auto intro!: takeWhile_append2 dropWhile_append2)
  from eq [of "[]"] eq show ?thesis
    by (cases v) (simp_all add: split_equals_def del: dropWhile_eq_Nil_conv takeWhile_eq_all_conv)
qed

lemma getopt_long_dashes:
  assumes "w \<noteq> []"
  shows "getopt_long posix opts os (scanner sk ((''--'' @ w) # rest) []) =
    (let (r, g) = scan_long os w (scanner sk rest []) in (Some r, g))"
  using assms by (simp add: getopt_long_def skip_operands_def is_option_def)

lemma scans_word:
  assumes "word_ok opts os w" "word_operands w = []"
  shows "scans posix opts os (scanner sk (word_args w @ rest) []) (word_items os w) (scanner sk rest [])"
proof (cases w)
  case (Operand a)
  with assms(2) show ?thesis by simp
next
  case (Long n a)
  let ?v = "case attached a of None \<Rightarrow> [] | Some v \<Rightarrow> ''='' @ v"
  from assms(1) Long obtain e where n: "CHR ''='' \<notin> set n" "n @ ?v \<noteq> []"
    and e: "match_long os n = Some e" "arg_fits a (lo_has_arg e)" by (auto split: option.splits)
  have "scan_long os (n @ ?v) (scanner sk (separate a @ rest) []) = ((lo_val e, arg_value a), scanner sk rest [])"
    using split_equals_joined [OF n(1), of "attached a"] e option_argument_fits [OF e(2), of rest]
    by (simp add: scan_long_def)
  with getopt_long_dashes [OF n(2), where sk = sk and rest = "separate a @ rest"]
  have "scans posix opts os (scanner sk (word_args w @ rest) []) [(lo_val e, arg_value a)] (scanner sk rest [])"
    by (intro scans_one) (simp add: Long)
  then show ?thesis by (simp add: Long e(1))
next
  case (Flags cs)
  then obtain c t where cs: "cs = c # t" "c \<noteq> CHR ''-''" using assms(1) by (cases cs) auto
  from scans_flags [of opts cs, where t = "[]"] assms(1) Flags
  have "scans posix opts os (scanner sk rest (c # t)) (flag_items cs) (scanner sk rest [])" by (simp add: cs)
  from scans_cluster [OF this _ cs(2)] show ?thesis by (simp add: Flags cs flag_items_def)
next
  case (Short cs c a)
  let ?v = "case attached a of None \<Rightarrow> [] | Some v \<Rightarrow> v"
  from assms(1) Short obtain h where h: "short_option opts c = Some h" "\<not> is_flag opts c" "arg_fits a h" "a \<noteq> Attached []"
    and fl: "list_all (is_flag opts) cs" "hd (cs @ [c]) \<noteq> CHR ''-''" by (auto split: option.splits)
  from scans_trans [OF scans_flags [OF fl(1)] scan_short_argument [OF h]]
  have run: "scans posix opts os (scanner sk (separate a @ rest) (cs @ c # ?v)) (word_items os w) (scanner sk rest [])"
    by (simp add: Short)
  obtain d t where d: "cs @ c # ?v = d # t" "d \<noteq> CHR ''-''" using fl(2) by (cases cs) auto
  from scans_cluster [OF run [unfolded d(1)] _ d(2)] show ?thesis by (simp add: Short d(1) [symmetric])
qed

lemma scans_malformed_short:
  assumes "malformed_short opts cs as" "cs \<noteq> []" "hd cs \<noteq> CHR ''-''"
  shows "\<exists>g. scans posix opts os (scanner sk ((''-'' @ cs) # as) [])
    (flag_items (takeWhile (is_flag opts) cs) @ [(getopt_error, None)]) g"
proof -
  let ?fl = "takeWhile (is_flag opts) cs"
  from assms(1) obtain c t where t: "dropWhile (is_flag opts) cs = c # t"
    and bad: "short_option opts c = None \<or> short_option opts c = Some required_argument \<and> t = [] \<and> as = []"
    by (auto simp: malformed_short_def split: list.splits option.splits)
  have "\<exists>g. scans posix opts os (scanner sk as (c # t)) [(getopt_error, None)] g"
    using bad by (auto simp: getopt_long_def scan_short_def scan_argument_def option_argument_def intro!: exI scans_one)
  moreover have "list_all (is_flag opts) ?fl" by (auto simp: list_all_iff dest: set_takeWhileD)
  from scans_flags [OF this, where sk = sk and rest = as and t = "c # t"]
  have "scans posix opts os (scanner sk as cs) (flag_items ?fl) (scanner sk as (c # t))"
    using takeWhile_dropWhile_id [of "is_flag opts" cs] by (simp add: t)
  ultimately obtain g where "scans posix opts os (scanner sk as cs) (flag_items ?fl @ [(getopt_error, None)]) g"
    by (blast intro: scans_trans)
  then have "scans posix opts os (scanner sk as (hd cs # tl cs)) (flag_items ?fl @ [(getopt_error, None)]) g"
    using assms(2) by simp
  from scans_cluster [OF this _ assms(3)] assms(2) show ?thesis by (intro exI [of _ g]) simp
qed

lemma scans_malformed:
  assumes "end_ok posix opts os (Malformed a as)"
  shows "\<exists>g. scans posix opts os (scanner sk (a # as) []) (end_items opts (Malformed a as)) g"
proof (cases "take 2 a = ''--''")
  case True
  with assms obtain w where w: "a = ''--'' @ w" "w \<noteq> []" by (metis append_take_drop_id append_Nil2 end_ok.simps(4))
  with assms True have "malformed_long os w as" by simp
  then have "fst (scan_long os w (scanner sk as [])) = (getopt_error, None)"
    by (auto simp: malformed_long_def scan_long_def option_argument_def split: prod.splits option.splits)
  then obtain g where "scan_long os w (scanner sk as []) = ((getopt_error, None), g)"
    by (cases "scan_long os w (scanner sk as [])") simp
  with getopt_long_dashes [OF w(2), where sk = sk and rest = as]
  have "scans posix opts os (scanner sk (a # as) []) [(getopt_error, None)] g"
    by (intro scans_one) (simp add: w(1))
  with True show ?thesis by (intro exI [of _ g]) simp
next
  case False
  with assms obtain cs where cs: "a = ''-'' @ cs" "cs \<noteq> []" "hd cs \<noteq> CHR ''-''"
    by (cases a; cases "tl a") (auto simp: is_option_def split: if_splits)
  with assms False have "malformed_short opts cs as" by simp
  from scans_malformed_short [OF this cs(2,3)] False show ?thesis by (simp add: cs(1))
qed

text \<open>The other ends make the scanner return -1, with the operands where they are taken from.\<close>

lemma getopt_long_end:
  assumes "end_ok posix opts os e" "\<And>a as. e \<noteq> Malformed a as"
  shows "getopt_long posix opts os (scanner sk (end_args e) []) = (None, scanner sk (end_operands e) [])"
proof (cases e)
  case (Stop as)
  with assms(1) obtain a t where "as = a # t" "\<not> is_option a" posix by (cases as) auto
  moreover from this have "a \<noteq> ''--''" by (auto simp: is_option_def)
  ultimately show ?thesis by (simp add: Stop getopt_long_def skip_operands_def)
qed (use assms(2) in \<open>auto simp: getopt_long_def skip_operands_def is_option_def\<close>)

lemma getopt_long_operand:
  "\<not> is_option a \<Longrightarrow> getopt_long False opts os (scanner sk (a # rest) []) =
    getopt_long False opts os (scanner (sk @ [a]) rest [])"
  by (simp add: getopt_long_def skip_operands_def)

end
