(* ===== verification/Fand_Options.thy ===== *)
theory Fand_Options
  imports Command_Line
begin

text \<open>
  The command line of the daemon: \<open>parse_options\<close> and \<open>usage\<close> of \<open>fand.c\<close>. The option tables and
  handlers that the Open vSwitch macros expand to are fields of the record \<open>ovs_options\<close>, an argument
  of the definitions; \<open>'o\<close> is the state of the library that the handlers set up.
\<close>

section \<open>The library\<close>

text \<open>How a process ends: by \<open>exit\<close>, with what it has printed, or by \<open>abort\<close>.\<close>

datatype exit = Exit int string | Abort

definition EXIT_SUCCESS :: int where "EXIT_SUCCESS = 0"
definition EXIT_FAILURE :: int where "EXIT_FAILURE = 1"

text \<open>
  \<open>vlog_option_enums\<close> and \<open>daemon_option_enums\<close> count the enumerators of the macros
  \<open>VLOG_OPTION_ENUMS\<close> and \<open>DAEMON_OPTION_ENUMS\<close>; \<open>option_handlers\<close> are the case labels of the three
  macros \<open>..._OPTION_HANDLERS\<close> with their code.
\<close>

record 'o ovs_options =
  daemon_long_options :: "long_option list"
  vlog_long_options :: "long_option list"
  stream_ssl_long_options :: "long_option list"
  vlog_option_enums :: nat
  daemon_option_enums :: nat
  option_handlers :: "int \<Rightarrow> (string option \<Rightarrow> 'o \<Rightarrow> exit + 'o) option"
  long_options_to_short_options :: "long_option list \<Rightarrow> string"
  posixly_correct :: bool
  stream_ssl_set_peer_ca_cert_file :: "string option \<Rightarrow> 'o \<Rightarrow> 'o"
  stream_ssl_set_ca_cert_file :: "string option \<Rightarrow> bool \<Rightarrow> 'o \<Rightarrow> 'o"
  ovs_version_text :: string
  stream_usage :: "string \<Rightarrow> bool \<Rightarrow> bool \<Rightarrow> bool \<Rightarrow> string"
  daemon_usage :: string
  vlog_usage :: string
  ovs_rundir :: string
  program_name :: string

section \<open>The options\<close>

text \<open>The local enum, which starts at \<open>UCHAR_MAX + 1\<close>.\<close>

definition OPT_PEER_CA_CERT :: int where "OPT_PEER_CA_CERT = 256"
definition OPT_UNIXCTL :: int where "OPT_UNIXCTL = OPT_PEER_CA_CERT + 1"

definition OPT_BOOTSTRAP_CA_CERT :: "'o ovs_options \<Rightarrow> int" where
  "OPT_BOOTSTRAP_CA_CERT L = OPT_UNIXCTL + int (vlog_option_enums L) + 1"

definition fand_option :: "string \<Rightarrow> has_arg \<Rightarrow> int \<Rightarrow> long_option" where
  "fand_option n h v = \<lparr>lo_name = n, lo_has_arg = h, lo_val = v\<rparr>"

definition long_options :: "'o ovs_options \<Rightarrow> long_option list" where
  "long_options L =
     [fand_option ''help'' no_argument (of_char CHR ''h''),
      fand_option ''version'' no_argument (of_char CHR ''V''),
      fand_option ''unixctl'' required_argument OPT_UNIXCTL] @
     daemon_long_options L @ vlog_long_options L @ stream_ssl_long_options L @
     [fand_option ''peer-ca-cert'' required_argument OPT_PEER_CA_CERT,
      fand_option ''bootstrap-ca-cert'' required_argument (OPT_BOOTSTRAP_CA_CERT L)]"

section \<open>Usage\<close>

definition usage :: "'o ovs_options \<Rightarrow> string" where
  "usage L =
     program_name L @ '': OpenSwitch fand daemon\<newline>'' @
     ''usage: '' @ program_name L @ '' [OPTIONS] [DATABASE]\<newline>'' @
     ''where DATABASE is a socket on which ovsdb-server is listening\<newline>'' @
     ''      (default: \"unix:'' @ ovs_rundir L @ ''/db.sock\").\<newline>'' @
     stream_usage L ''DATABASE'' True False True @ daemon_usage L @ vlog_usage L @
     ''\<newline>Other options:\<newline>'' @
     ''  --unixctl=SOCKET        override default control socket name\<newline>'' @
     ''  -h, --help              display this help message\<newline>'' @
     ''  -V, --version           display version information\<newline>''"

section \<open>Parsing\<close>

text \<open>
  The body of the loop: the \<open>switch\<close> over what \<open>getopt_long\<close> returned. The state is the variable that
  \<open>unixctl_pathp\<close> points to and the library's.
\<close>

definition option_switch :: "'o ovs_options \<Rightarrow> int \<times> string option \<Rightarrow> string option \<times> 'o \<Rightarrow>
    exit + string option \<times> 'o" where
  "option_switch L = (\<lambda>(c, optarg) (unixctl_path, env).
     if c = of_char CHR ''h'' then Inl (Exit EXIT_SUCCESS (usage L))
     else if c = of_char CHR ''V'' then Inl (Exit EXIT_SUCCESS (ovs_version_text L))
     else if c = OPT_UNIXCTL then Inr (optarg, env)
     else if c = OPT_PEER_CA_CERT then Inr (unixctl_path, stream_ssl_set_peer_ca_cert_file L optarg env)
     else if c = OPT_BOOTSTRAP_CA_CERT L then Inr (unixctl_path, stream_ssl_set_ca_cert_file L optarg True env)
     else if c = getopt_error then Inl (Exit EXIT_FAILURE [])
     else case option_handlers L c of
       Some h \<Rightarrow> and_then (h optarg env) (\<lambda>env. Inr (unixctl_path, env))
     | None \<Rightarrow> Inl Abort)"

partial_function (option) options_loop :: "'o ovs_options \<Rightarrow> getopt \<Rightarrow> string option \<times> 'o \<Rightarrow>
    (exit + (string option \<times> 'o) \<times> getopt) option" where
  "options_loop L g s =
     (case getopt_long (posixly_correct L) (long_options_to_short_options L (long_options L)) (long_options L) g of
        (None, g) \<Rightarrow> Some (Inr (s, g))
      | (Some r, g) \<Rightarrow>
          (case option_switch L r s of
             Inl e \<Rightarrow> Some (Inl e)
           | Inr s \<Rightarrow> options_loop L g s))"

text \<open>What follows the options: \<open>VLOG_FATAL\<close> ends the process with a failure.\<close>

definition options_remote :: "'o ovs_options \<Rightarrow> string list \<Rightarrow> exit + string" where
  "options_remote L args = (case args of
       [] \<Rightarrow> Inr (''unix:'' @ ovs_rundir L @ ''/db.sock'')
     | [a] \<Rightarrow> Inr a
     | _ \<Rightarrow> Inl (Exit EXIT_FAILURE []))"

text \<open>\<open>args\<close> is \<open>argv\<close> without the program's name. \<open>None\<close> would be a loop that does not end.\<close>

definition parse_options :: "'o ovs_options \<Rightarrow> string list \<Rightarrow> string option \<times> 'o \<Rightarrow>
    (exit + string \<times> string option \<times> 'o) option" where
  "parse_options L args s =
     (case options_loop L (getopt_start args) s of
        None \<Rightarrow> None
      | Some r \<Rightarrow> Some (and_then r (\<lambda>(s, g).
          and_then (options_remote L (getopt_operands g)) (\<lambda>remote. Inr (remote, s)))))"

section \<open>The loop ends\<close>

lemma options_loop_result:
  "\<exists>r. options_loop L g s = Some r \<and> (\<forall>e. r = Inl e \<longrightarrow>
    (\<exists>c v s. option_value (long_options_to_short_options L (long_options L)) (long_options L) c \<and>
       option_switch L (c, v) s = Inl e))"
  using getopt_scanner.loop_returns [where f = "options_loop L" and k = Pair and h = "option_switch L" and g = g and s = s,
      OF options_loop.simps]
  by simp

section \<open>What the loop does with a command line\<close>

text \<open>The short options of the daemon, and the lines of the grammar over its tables.\<close>

abbreviation short_options :: "'o ovs_options \<Rightarrow> string" where
  "short_options L \<equiv> long_options_to_short_options L (long_options L)"

lemma options_loop_scans:
  "scans (posixly_correct L) (short_options L) (long_options L) g items g' \<Longrightarrow>
    options_loop L g s = (case foreach (option_switch L) items s of Inl e \<Rightarrow> Some (Inl e) | Inr s \<Rightarrow> options_loop L g' s)"
proof (induction arbitrary: s rule: scans.induct)
  case (step g r h rs g')
  have "options_loop L g s = (case option_switch L r s of Inl e \<Rightarrow> Some (Inl e) | Inr s \<Rightarrow> options_loop L h s)"
    using step.hyps(1) by (subst options_loop.simps) simp
  with step.IH show ?case by (cases "option_switch L r s") simp_all
qed simp

lemma option_switch_error [simp]: "option_switch L (getopt_error, v) s = Inl (Exit EXIT_FAILURE [])"
  by (cases s) (simp add: option_switch_def getopt_error_def OPT_UNIXCTL_def OPT_PEER_CA_CERT_def OPT_BOOTSTRAP_CA_CERT_def)

text \<open>The handlers are run in the order of the options, up to one that ends the process.\<close>

lemma options_loop_end:
  assumes "end_ok (posixly_correct L) (short_options L) (long_options L) e"
  shows "\<exists>g. getopt_operands g = sk @ end_operands e \<and> options_loop L (scanner sk (end_args e) []) s =
    Some (and_then (foreach (option_switch L) (end_items (short_options L) e) s) (\<lambda>s. Inr (s, g)))"
proof (cases "\<exists>a as. e = Malformed a as")
  case True
  then obtain a as where e: "e = Malformed a as" by blast
  from scans_malformed [OF assms [unfolded e], of sk] obtain g where
    "scans (posixly_correct L) (short_options L) (long_options L) (scanner sk (a # as) []) (end_items (short_options L) e) g"
    by (auto simp: e)
  from options_loop_scans [OF this, of s] show ?thesis
    by (intro exI [of _ "scanner sk (end_operands e) []"])
      (auto simp: e getopt_operands_def foreach_append and_then_def split: sum.split)
next
  case False
  then have no: "e \<noteq> Malformed a as" for a as by blast
  then have "end_items (short_options L) e = []" by (cases e) auto
  moreover have "options_loop L (scanner sk (end_args e) []) s = Some (Inr (s, scanner sk (end_operands e) []))"
    by (subst options_loop.simps) (simp add: getopt_long_end [OF assms no])
  ultimately show ?thesis by (intro exI [of _ "scanner sk (end_operands e) []"]) (simp add: getopt_operands_def)
qed

lemma options_loop_line:
  "line_ok (posixly_correct L) (short_options L) (long_options L) ws e \<Longrightarrow>
    \<exists>g. getopt_operands g = sk @ line_operands ws e \<and> options_loop L (scanner sk (line_args ws e) []) s =
      Some (and_then (foreach (option_switch L) (line_items (short_options L) (long_options L) ws e) s) (\<lambda>s. Inr (s, g)))"
proof (induction ws arbitrary: sk s)
  case Nil
  then show ?case using options_loop_end [of L e sk s]
    by (simp add: line_ok_def line_args_def line_items_def line_operands_def)
next
  case (Cons w ws)
  then have ok: "line_ok (posixly_correct L) (short_options L) (long_options L) ws e"
    and w: "word_ok (short_options L) (long_options L) w" "posixly_correct L \<longrightarrow> word_operands w = []"
    by (simp_all add: line_ok_def)
  show ?case
  proof (cases "word_operands w")
    case Nil
    have "scans (posixly_correct L) (short_options L) (long_options L) (scanner sk (line_args (w # ws) e) [])
        (word_items (long_options L) w) (scanner sk (line_args ws e) [])"
      using scans_word [OF w(1) Nil, where sk = sk and rest = "line_args ws e"] by (simp add: line_args_def)
    note run = options_loop_scans [OF this, of s]
    show ?thesis
    proof (cases "foreach (option_switch L) (word_items (long_options L) w) s")
      case (Inl x)
      with run Nil show ?thesis
        by (intro exI [of _ "scanner sk (line_operands ws e) []"])
          (simp add: line_items_def line_operands_def foreach_append getopt_operands_def)
    next
      case (Inr s')
      from Cons.IH [OF ok, of sk s'] Inr run Nil show ?thesis
        by (simp add: line_items_def line_operands_def foreach_append)
    qed
  next
    case (Cons x xs)
    then obtain a where a: "w = Operand a" by (cases w) auto
    with w Cons have "\<not> is_option a" "\<not> posixly_correct L" by simp_all
    then have "options_loop L (scanner sk (a # line_args ws e) []) s = options_loop L (scanner (sk @ [a]) (line_args ws e) []) s"
      by (subst (1 2) options_loop.simps) (simp add: getopt_long_operand)
    with Cons.IH [OF ok, of "sk @ [a]" s] show ?thesis
      by (simp add: a line_args_def line_items_def line_operands_def)
  qed
qed

lemma parse_options_line:
  assumes "line_ok (posixly_correct L) (short_options L) (long_options L) ws e"
  shows "parse_options L (line_args ws e) s =
    Some (and_then (foreach (option_switch L) (line_items (short_options L) (long_options L) ws e) s) (\<lambda>s.
      and_then (options_remote L (line_operands ws e)) (\<lambda>remote. Inr (remote, s))))"
proof -
  from options_loop_line [OF assms, of "[]" s] obtain g where "getopt_operands g = line_operands ws e"
    "options_loop L (getopt_start (line_args ws e)) s = Some (and_then (foreach (option_switch L)
      (line_items (short_options L) (long_options L) ws e) s) (\<lambda>s. Inr (s, g)))"
    by (auto simp: getopt_start_def)
  then show ?thesis
    by (cases "foreach (option_switch L) (line_items (short_options L) (long_options L) ws e) s")
      (simp_all add: parse_options_def)
qed

section \<open>The library's side\<close>

text \<open>
  What the macros of Open vSwitch promise: each option of their tables has a case label, no handler
  calls \<open>abort\<close>, and the string of short options lists the values of the table that are characters.
\<close>

definition ovs_options_ok :: "'o ovs_options \<Rightarrow> bool" where
  "ovs_options_ok L \<longleftrightarrow>
     (\<forall>e \<in> set (daemon_long_options L @ vlog_long_options L @ stream_ssl_long_options L).
        option_handlers L (lo_val e) \<noteq> None) \<and>
     (\<forall>c h v env. option_handlers L c = Some h \<longrightarrow> h v env \<noteq> Inl Abort) \<and>
     (\<forall>c h. short_option (long_options_to_short_options L (long_options L)) c = Some h \<longrightarrow>
        of_char c \<in> lo_val ` set (long_options L))"

lemma option_switch_handled:
  assumes L: "ovs_options_ok L"
    and c: "option_value (long_options_to_short_options L (long_options L)) (long_options L) c"
  shows "option_switch L (c, v) s \<noteq> Inl Abort"
proof -
  from c L have "c = getopt_error \<or> c \<in> lo_val ` set (long_options L)"
    by (auto simp: option_value_def ovs_options_ok_def)
  then have "c \<in> {of_char CHR ''h'', of_char CHR ''V'', OPT_UNIXCTL, OPT_PEER_CA_CERT,
      OPT_BOOTSTRAP_CA_CERT L, getopt_error} \<or> option_handlers L c \<noteq> None"
    using L by (auto simp: long_options_def fand_option_def ovs_options_ok_def)
  moreover have "h v env \<noteq> Inl Abort" if "option_handlers L c = Some h" for h env
    using L that by (simp add: ovs_options_ok_def)
  ultimately show ?thesis
    by (cases s) (auto simp: option_switch_def and_then_def split: option.split sum.split)
qed

lemma options_loop_no_abort:
  assumes "ovs_options_ok L"
  shows "options_loop L g s \<noteq> Some (Inl Abort)"
  using options_loop_result [of L g s] option_switch_handled [OF assms] by auto

section \<open>Properties\<close>

text \<open>
  C16: the loop of \<open>parse_options\<close> ends. Whatever the arguments are and whatever the library's handlers
  do, the function returns or ends the process; it never loops forever.
\<close>

theorem parse_options_terminates: "\<exists>r. parse_options L args s = Some r"
  using options_loop_result [of L "getopt_start args" s] by (auto simp: parse_options_def)

text \<open>
  C20: the meaning of every command line. Any arguments are a line of the grammar: words, which are
  operands, long options (full or abbreviated, with an argument after an equals sign or in the next
  argument) and clusters of short options, then an end. Read in any such way, the options are handled
  from left to right, up to one that ends the process, as a malformed argument does; the operands, those
  between the options, after \<open>--\<close> and from the first one on in POSIX order, name the database: none is the
  default socket, more than one is an error.
\<close>

theorem parse_options_words:
  "(\<exists>ws e. line_ok (posixly_correct L) (short_options L) (long_options L) ws e \<and> args = line_args ws e) \<and>
   (\<forall>ws e. line_ok (posixly_correct L) (short_options L) (long_options L) ws e \<and> args = line_args ws e \<longrightarrow>
     parse_options L args s =
       Some (and_then (foreach (option_switch L) (line_items (short_options L) (long_options L) ws e) s) (\<lambda>s.
         case line_operands ws e of
           [] \<Rightarrow> Inr (''unix:'' @ ovs_rundir L @ ''/db.sock'', s)
         | [a] \<Rightarrow> Inr (a, s)
         | _ \<Rightarrow> Inl (Exit EXIT_FAILURE []))))"
proof (intro conjI allI impI)
  show "\<exists>ws e. line_ok (posixly_correct L) (short_options L) (long_options L) ws e \<and> args = line_args ws e"
    using line_exists [of "posixly_correct L" "short_options L" "long_options L" args] by blast
next
  fix ws e assume line: "line_ok (posixly_correct L) (short_options L) (long_options L) ws e \<and> args = line_args ws e"
  have "and_then (options_remote L as) (\<lambda>remote. Inr (remote, s)) = (case as of
      [] \<Rightarrow> Inr (''unix:'' @ ovs_rundir L @ ''/db.sock'', s) | [a] \<Rightarrow> Inr (a, s) | _ \<Rightarrow> Inl (Exit EXIT_FAILURE []))"
    for as and s :: "string option \<times> 'a"
    by (simp add: options_remote_def split: list.split)
  with parse_options_line [of L ws e s] line show "parse_options L args s =
      Some (and_then (foreach (option_switch L) (line_items (short_options L) (long_options L) ws e) s) (\<lambda>s.
        case line_operands ws e of
          [] \<Rightarrow> Inr (''unix:'' @ ovs_rundir L @ ''/db.sock'', s)
        | [a] \<Rightarrow> Inr (a, s)
        | _ \<Rightarrow> Inl (Exit EXIT_FAILURE [])))" by simp
qed

text \<open>
  C21: the \<open>default\<close> of the switch is never reached. With the option macros as they are documented, no
  command line makes \<open>parse_options\<close> call \<open>abort\<close>: every value that \<open>getopt_long\<close> can return has a
  case of its own.
\<close>

theorem parse_options_never_aborts:
  assumes "ovs_options_ok L"
  shows "parse_options L args s \<noteq> Some (Inl Abort)"
proof -
  have "options_remote L as \<noteq> Inl Abort" for as
    by (auto simp: options_remote_def split: list.split)
  with options_loop_no_abort [OF assms, of "getopt_start args" s] show ?thesis
    by (auto simp: parse_options_def and_then_def split: option.splits sum.splits prod.splits)
qed

end
