(* ===== verification/Fand_Main.thy ===== *)
theory Fand_Main
  imports Fand_Daemon Fand_Options
begin

text \<open>
  The program: \<open>main\<close> from its command line to the main loop.
\<close>

section \<open>The start of the process\<close>

text \<open>
  The library calls that create what \<open>main\<close> and \<open>fand_init\<close> work with: the control socket (0 is
  success), the yaml handle and the replica of the database at an address.
\<close>

record 'y fand_libs =
  unixctl_server_create :: "string option \<Rightarrow> int"
  yaml_new_config_handle :: 'y
  ovsdb_idl_create :: "string \<Rightarrow> ovsdb_idl"

text \<open>\<open>env\<close> is the state of the library that the options set up; \<open>st\<close> holds the globals.\<close>

definition main_start :: "('s, 'y, 'h) platform \<Rightarrow> 'o ovs_options \<Rightarrow> 'y fand_libs \<Rightarrow> string list \<Rightarrow> 'o \<Rightarrow>
    ('s, 'y, 'h) fand \<Rightarrow> (exit + ('s, 'y, 'h) fand) option" where
  "main_start P L E args env st =
     (case parse_options L args (None, env) of
        None \<Rightarrow> None
      | Some r \<Rightarrow> Some (and_then r (\<lambda>(remote, unixctl_path, env).
          if unixctl_server_create E unixctl_path \<noteq> 0 then Inl (Exit EXIT_FAILURE [])
          else Inr (fand_init P (yaml_new_config_handle E) (ovsdb_idl_create E remote) st))))"

section \<open>The life of the process\<close>

text \<open>All states that a process started with \<open>args\<close> can reach.\<close>

definition program_reaches :: "('s, 'y, 'h) platform \<Rightarrow> 'o ovs_options \<Rightarrow> 'y fand_libs \<Rightarrow> string list \<Rightarrow> 'o \<Rightarrow>
    ('s, 'y, 'h) fand \<Rightarrow> ('s, 'y, 'h) fand process \<Rightarrow> bool" where
  "program_reaches P L E args env st =
     reach (\<lambda>p. \<exists>st0. main_start P L E args env st = Some (Inr st0) \<and> p = Running st0) (main_step P)"

lemma main_start_Inr:
  assumes "main_start P L E args env st = Some (Inr st0)"
  shows "\<exists>y i. st0 = fand_init P y i st"
  using assms by (auto simp: main_start_def and_then_Inr_iff split: option.splits prod.splits if_splits)

lemma program_reaches_ok:
  assumes "platform_ok P" "program_start st" "program_reaches P L E args env st p"
  shows "process_ok P p"
proof (rule daemon_system.reach_inv)
  show "reach (process_start P) (main_step P) p"
    using assms(3) unfolding program_reaches_def
  proof (rule reach_mono)
    fix q assume "\<exists>st0. main_start P L E args env st = Some (Inr st0) \<and> q = Running st0"
    then obtain st0 where st0: "main_start P L E args env st = Some (Inr st0)" "q = Running st0" by blast
    from main_start_Inr [OF st0(1)] st0(2) obtain y i where "q = Running (fand_init P y i st)" by auto
    with assms(1,2) show "process_start P q" unfolding process_start_def by blast
  qed simp
qed

section \<open>Properties\<close>

text \<open>
  C14: from the command line to the main loop, for every reading of every command line (and by
  \<open>line_exists\<close> every argument vector has one). \<open>main\<close> enters its loop exactly when the options do not end the process, there is at most
  one operand, and the control socket that they name can be opened; it then holds the freshly initialised
  daemon on the replica of the database that the operand names, or of the default socket. From there on
  no turn touches freed memory.
\<close>

theorem main_enters_loop:
  assumes "platform_ok P" "program_start st"
    and "line_ok (posixly_correct L) (short_options L) (long_options L) ws e"
  shows "(\<forall>st0. main_start P L E (line_args ws e) env st = Some (Inr st0) \<longleftrightarrow>
      (\<exists>path env'. foreach (option_switch L) (line_items (short_options L) (long_options L) ws e) (None, env) = Inr (path, env') \<and>
        length (line_operands ws e) \<le> 1 \<and> unixctl_server_create E path = 0 \<and>
        st0 = fand_init P (yaml_new_config_handle E) (ovsdb_idl_create E
          (case line_operands ws e of [] \<Rightarrow> ''unix:'' @ ovs_rundir L @ ''/db.sock'' | a # _ \<Rightarrow> a)) st)) \<and>
    (\<forall>f. program_reaches P L E (line_args ws e) env st (Crashed f) \<longrightarrow> f \<noteq> UseAfterFree)"
proof (intro conjI allI impI)
  let ?db = "case line_operands ws e of [] \<Rightarrow> ''unix:'' @ ovs_rundir L @ ''/db.sock'' | a # _ \<Rightarrow> a"
  have remote: "options_remote L (line_operands ws e) =
      (if length (line_operands ws e) \<le> 1 then Inr ?db else Inl (Exit EXIT_FAILURE []))"
    by (auto simp: options_remote_def split: list.split)
  fix st0
  show "main_start P L E (line_args ws e) env st = Some (Inr st0) \<longleftrightarrow>
      (\<exists>path env'. foreach (option_switch L) (line_items (short_options L) (long_options L) ws e) (None, env) = Inr (path, env') \<and>
        length (line_operands ws e) \<le> 1 \<and> unixctl_server_create E path = 0 \<and>
        st0 = fand_init P (yaml_new_config_handle E) (ovsdb_idl_create E ?db) st)"
  proof (cases "foreach (option_switch L) (line_items (short_options L) (long_options L) ws e) (None, env)")
    case (Inl x)
    with parse_options_line [OF assms(3), of "(None, env)"] show ?thesis by (simp add: main_start_def)
  next
    case (Inr s)
    obtain path env' where "s = (path, env')" by fastforce
    with Inr parse_options_line [OF assms(3), of "(None, env)"] remote show ?thesis
      by (auto simp: main_start_def)
  qed
next
  fix f assume "program_reaches P L E (line_args ws e) env st (Crashed f)"
  from program_reaches_ok [OF assms(1,2) this] show "f \<noteq> UseAfterFree" by (auto simp: process_ok_def)
qed

end
