(* ===== verification/Fand_Process.thy ===== *)
theory Fand_Process
  imports Fand_Main
begin

text \<open>
  The process as its libraries see it: all calls that create, configure, use and destroy the database
  client and the control socket, from \<open>main\<close>'s first line to its \<open>return\<close>, for any environment of the
  main loop. They keep to the order that these libraries ask for, and a process that returns leaves
  nothing open.
\<close>

section \<open>The calls\<close>

text \<open>\<open>UnixctlServerCreate\<close> carries whether it succeeded.\<close>

datatype proc_call =
    SetProgramName string
  | ProctitleInit
  | FatalIgnoreSigpipe
  | OvsrecInit
  | DaemonizeStart
  | UnixctlServerCreate "string option" bool
  | UnixctlCommandRegister string
  | YamlNewConfigHandle
  | IdlCreate string
  | IdlGetSeqno
  | IdlSetLock string
  | IdlVerifyWriteOnly
  | IdlRegister idl_call
  | EventLogInit string
  | IdlRun
  | UnixctlServerRun "unixctl_command list"
  | PollBlock "wake list"
  | IdlDestroy
  | UnixctlServerDestroy

text \<open>\<open>fand_init\<close>, in its order. A failure of \<open>event_log_init\<close> is only logged.\<close>

definition fand_init_calls :: "string \<Rightarrow> proc_call list" where
  "fand_init_calls remote =
     [YamlNewConfigHandle, IdlCreate remote, IdlGetSeqno, IdlSetLock ''ops_fand'', IdlVerifyWriteOnly] @
     map IdlRegister fand_init_registration @
     [UnixctlCommandRegister ''ops-fand/dump'', EventLogInit ''FAN'']"

definition fand_exit :: "proc_call list" where
  "fand_exit = [IdlDestroy]"

text \<open>The calls of a turn, up to the fault if there is one.\<close>

definition turn_calls :: "('s, 'y, 'h) platform \<Rightarrow> ovsdb_idl \<Rightarrow> unixctl_command list \<Rightarrow>
    ('s, 'y, 'h) fand \<Rightarrow> proc_call list" where
  "turn_calls P i cmds st =
     (case fand_run P i st of
        Inl e \<Rightarrow> [IdlRun]
      | Inr st \<Rightarrow>
          (case unixctl_server_run P st cmds False of
             Inl e \<Rightarrow> [IdlRun, UnixctlServerRun cmds]
           | Inr (replies, exiting) \<Rightarrow> [IdlRun, UnixctlServerRun cmds, PollBlock (main_wait exiting)]))"

text \<open>
  The loop of \<open>main\<close> on the replicas and commands of its turns: a fault, or the state after the last
  given turn and whether the loop has been left.
\<close>

primrec main_loop :: "('s, 'y, 'h) platform \<Rightarrow> (ovsdb_idl \<times> unixctl_command list) list \<Rightarrow>
    ('s, 'y, 'h) fand \<Rightarrow> proc_call list \<times> (fault + ('s, 'y, 'h) fand \<times> bool)" where
  "main_loop P [] st = ([], Inr (st, False))"
| "main_loop P (e # es) st =
     (let (i, cmds) = e;
          calls = turn_calls P i cmds st
      in case main_turn P i cmds st of
           Inl f \<Rightarrow> (calls, Inl f)
         | Inr (st, replies, exiting, wakes) \<Rightarrow>
             if exiting then (calls, Inr (st, True))
             else (let (calls', r) = main_loop P es st in (calls @ calls', r)))"

text \<open>
  \<open>main\<close>: it waits in its loop, has returned, was ended by an option or for want of its control socket,
  or has undefined behaviour. \<open>None\<close> is an option loop that does not end.
\<close>

datatype 'a outcome = Waiting 'a | Returned int | Terminated exit | Faulted fault

definition main_end :: "proc_call list \<Rightarrow> fault + ('s, 'y, 'h) fand \<times> bool \<Rightarrow>
    proc_call list \<times> ('s, 'y, 'h) fand outcome" where
  "main_end calls r =
     (case r of
        Inl f \<Rightarrow> (calls, Faulted f)
      | Inr (st, exited) \<Rightarrow>
          if exited then (calls @ fand_exit @ [UnixctlServerDestroy], Returned 0)
          else (calls, Waiting st))"

definition main_prog :: "('s, 'y, 'h) platform \<Rightarrow> 'o ovs_options \<Rightarrow> 'y fand_libs \<Rightarrow> string \<Rightarrow> string list \<Rightarrow>
    'o \<Rightarrow> (ovsdb_idl \<times> unixctl_command list) list \<Rightarrow> ('s, 'y, 'h) fand \<Rightarrow>
    (proc_call list \<times> ('s, 'y, 'h) fand outcome) option" where
  "main_prog P L E name args env es st =
     (let calls = [SetProgramName name, ProctitleInit]
      in case parse_options L args (None, env) of
           None \<Rightarrow> None
         | Some (Inl e) \<Rightarrow> Some (calls, Terminated e)
         | Some (Inr (remote, unixctl_path, env)) \<Rightarrow>
             (let retval = unixctl_server_create E unixctl_path;
                  calls = calls @ [FatalIgnoreSigpipe, OvsrecInit, DaemonizeStart,
                    UnixctlServerCreate unixctl_path (retval = 0)]
              in if retval \<noteq> 0 then Some (calls, Terminated (Exit EXIT_FAILURE []))
                 else
                   (let calls = calls @ [UnixctlCommandRegister ''exit''] @ fand_init_calls remote;
                        st = fand_init P (yaml_new_config_handle E) (ovsdb_idl_create E remote) st;
                        (loop_calls, r) = main_loop P es st
                    in Some (main_end (calls @ loop_calls) r))))"

section \<open>A specification of the order of the calls\<close>

text \<open>
  The tables, the monitored and the alerting columns after a list of calls: a column comes after its
  table, and its alert is turned off after it was added.
\<close>

fun register :: "idl_call list \<Rightarrow> string list \<times> (string \<times> string) list \<times> (string \<times> string) list \<Rightarrow>
    (string list \<times> (string \<times> string) list \<times> (string \<times> string) list) option" where
  "register [] s = Some s"
| "register (AddTable t # cs) (ts, mon, alert) = register cs (t # ts, mon, alert)"
| "register (AddColumn t c # cs) (ts, mon, alert) =
     (if t \<in> set ts then register cs (ts, (t, c) # mon, (t, c) # alert) else None)"
| "register (OmitAlert t c # cs) (ts, mon, alert) =
     (if (t, c) \<in> set mon then register cs (ts, mon, removeAll (t, c) alert) else None)"

text \<open>
  What follows specifies \<open>main\<close>; it is not a model of the libraries, which the definitions above do not
  use. It writes out in which order the handles have to be created, configured, used and destroyed.
  The client library: its classes are set up first; lock, write-only mode and columns are chosen between
  the creation of a replica and its first \<open>ovsdb_idl_run\<close>; a replica is used until it is destroyed. The
  control socket: a command has one registration, before it is served. A handle is created once.
\<close>

datatype phase = Absent | Fresh | InUse | Gone

record lib_state =
  classes_set :: bool
  idl_phase :: phase
  columns_set :: "string list \<times> (string \<times> string) list \<times> (string \<times> string) list"
  server_phase :: phase
  commands_set :: "string list"

definition lib_start :: lib_state where
  "lib_start = \<lparr>classes_set = False, idl_phase = Absent, columns_set = ([], [], []), server_phase = Absent,
     commands_set = []\<rparr>"

primrec command_name :: "unixctl_command \<Rightarrow> string" where
  "command_name DumpCmd = ''ops-fand/dump''"
| "command_name ExitCmd = ''exit''"

definition guarded :: "bool \<Rightarrow> 'a \<Rightarrow> 'a option" where
  "guarded b x = (if b then Some x else None)"

primrec lib_step :: "proc_call \<Rightarrow> lib_state \<Rightarrow> lib_state option" where
  "lib_step (SetProgramName name) s = Some s"
| "lib_step ProctitleInit s = Some s"
| "lib_step FatalIgnoreSigpipe s = Some s"
| "lib_step OvsrecInit s = Some (s\<lparr>classes_set := True\<rparr>)"
| "lib_step DaemonizeStart s = guarded (server_phase s = Absent \<and> idl_phase s = Absent) s"
| "lib_step (UnixctlServerCreate path ok) s =
     guarded (server_phase s = Absent) (if ok then s\<lparr>server_phase := InUse\<rparr> else s)"
| "lib_step (UnixctlCommandRegister c) s =
     guarded (c \<notin> set (commands_set s)) (s\<lparr>commands_set := c # commands_set s\<rparr>)"
| "lib_step YamlNewConfigHandle s = Some s"
| "lib_step (IdlCreate remote) s = guarded (classes_set s \<and> idl_phase s = Absent) (s\<lparr>idl_phase := Fresh\<rparr>)"
| "lib_step IdlGetSeqno s = guarded (idl_phase s \<in> {Fresh, InUse}) s"
| "lib_step (IdlSetLock lock) s = guarded (idl_phase s = Fresh) s"
| "lib_step IdlVerifyWriteOnly s = guarded (idl_phase s = Fresh) s"
| "lib_step (IdlRegister c) s =
     (if idl_phase s = Fresh then map_option (\<lambda>cols. s\<lparr>columns_set := cols\<rparr>) (register [c] (columns_set s)) else None)"
| "lib_step (EventLogInit category) s = Some s"
| "lib_step IdlRun s = guarded (idl_phase s \<in> {Fresh, InUse}) (s\<lparr>idl_phase := InUse\<rparr>)"
| "lib_step (UnixctlServerRun cmds) s =
     guarded (server_phase s = InUse \<and> list_all (\<lambda>c. command_name c \<in> set (commands_set s)) cmds) s"
| "lib_step (PollBlock wakes) s =
     guarded ((WakeIdl \<in> set wakes \<longrightarrow> idl_phase s = InUse) \<and> (WakeUnixctl \<in> set wakes \<longrightarrow> server_phase s = InUse)) s"
| "lib_step IdlDestroy s = guarded (idl_phase s \<in> {Fresh, InUse}) (s\<lparr>idl_phase := Gone\<rparr>)"
| "lib_step UnixctlServerDestroy s = guarded (server_phase s = InUse) (s\<lparr>server_phase := Gone\<rparr>)"

primrec lib_calls :: "proc_call list \<Rightarrow> lib_state \<Rightarrow> lib_state option" where
  "lib_calls [] s = Some s"
| "lib_calls (c # cs) s = Option.bind (lib_step c s) (lib_calls cs)"

lemma guarded_simps [simp]: "guarded b x = Some y \<longleftrightarrow> b \<and> y = x" "b \<Longrightarrow> guarded b x = Some x"
  by (auto simp: guarded_def)

lemma lib_calls_append: "lib_calls (cs @ cs') s = Option.bind (lib_calls cs s) (lib_calls cs')"
proof (induction cs arbitrary: s)
  case (Cons c cs)
  then show ?case by (cases "lib_step c s") simp_all
qed simp

section \<open>The calls of the program keep to the order\<close>

lemma register_Cons: "register (c # cs) cols = Option.bind (register [c] cols) (register cs)"
  by (cases c; cases cols) simp_all

lemma lib_calls_register:
  "idl_phase s = Fresh \<Longrightarrow> register cs (columns_set s) = Some cols \<Longrightarrow>
    lib_calls (map IdlRegister cs) s = Some (s\<lparr>columns_set := cols\<rparr>)"
proof (induction cs arbitrary: s)
  case (Cons c cs)
  from Cons.prems(2) obtain cols1 where 1: "register [c] (columns_set s) = Some cols1" "register cs cols1 = Some cols"
    unfolding register_Cons [of c cs] by (auto simp: bind_eq_Some_conv)
  from Cons.IH [of "s\<lparr>columns_set := cols1\<rparr>"] Cons.prems(1) 1 show ?case by simp
qed simp

text \<open>After \<open>fand_init\<close>, and in the loop.\<close>

definition ready :: "lib_state \<Rightarrow> bool" where
  "ready s \<longleftrightarrow> idl_phase s \<in> {Fresh, InUse} \<and> server_phase s = InUse \<and>
     {''ops-fand/dump'', ''exit''} \<subseteq> set (commands_set s)"

lemma command_names: "ready s \<Longrightarrow> list_all (\<lambda>c. command_name c \<in> set (commands_set s)) cmds"
proof (induction cmds)
  case (Cons c cmds)
  then show ?case by (cases c) (auto simp: ready_def)
qed simp

lemma fand_init_calls_ready:
  assumes "classes_set s" "idl_phase s = Absent" "server_phase s = InUse" "columns_set s = ([], [], [])"
    and "commands_set s = [''exit'']"
  shows "\<exists>s'. lib_calls (fand_init_calls remote) s = Some s' \<and> ready s'"
proof -
  obtain cols where cols: "register fand_init_registration ([], [], []) = Some cols"
    by (auto simp: fand_init_registration_def)
  let ?s1 = "s\<lparr>idl_phase := Fresh\<rparr>"
  let ?s2 = "?s1\<lparr>columns_set := cols\<rparr>"
  have 1: "lib_calls [YamlNewConfigHandle, IdlCreate remote, IdlGetSeqno, IdlSetLock ''ops_fand'', IdlVerifyWriteOnly] s = Some ?s1"
    using assms by simp
  have 2: "lib_calls (map IdlRegister fand_init_registration) ?s1 = Some ?s2"
    using assms(4) cols by (intro lib_calls_register) simp_all
  have 3: "lib_calls [UnixctlCommandRegister ''ops-fand/dump'', EventLogInit ''FAN''] ?s2 =
      Some (?s2\<lparr>commands_set := [''ops-fand/dump'', ''exit'']\<rparr>)" using assms(5) by simp
  have "lib_calls (fand_init_calls remote) s = Some (?s2\<lparr>commands_set := [''ops-fand/dump'', ''exit'']\<rparr>)"
    unfolding fand_init_calls_def lib_calls_append 1 bind.bind_lunit 2 3 ..
  with assms(3) show ?thesis by (auto simp: ready_def)
qed

lemma turn_calls_ready:
  assumes "ready s"
  shows "lib_calls (turn_calls P i cmds st) s = Some (s\<lparr>idl_phase := InUse\<rparr>)"
  using assms command_names [of "s\<lparr>idl_phase := InUse\<rparr>" cmds]
  by (auto simp: turn_calls_def ready_def split: sum.split)

lemma main_loop_ready:
  "ready s \<Longrightarrow> \<exists>s'. lib_calls (fst (main_loop P es st)) s = Some s' \<and> ready s'"
proof (induction es arbitrary: s st)
  case (Cons e es)
  obtain i cmds where e: "e = (i, cmds)" by fastforce
  have turn: "lib_calls (turn_calls P i cmds st) s = Some (s\<lparr>idl_phase := InUse\<rparr>)" "ready (s\<lparr>idl_phase := InUse\<rparr>)"
    using turn_calls_ready [OF Cons.prems] Cons.prems by (simp_all add: ready_def)
  show ?case
  proof (cases "main_turn P i cmds st")
    case (Inl f)
    with turn show ?thesis by (simp add: e)
  next
    case (Inr x)
    obtain st1 replies exiting wakes where x: "x = (st1, replies, exiting, wakes)" by (cases x)
    obtain calls r where loop: "main_loop P es st1 = (calls, r)" by fastforce
    from Cons.IH [OF turn(2), of st1] turn show ?thesis
      by (cases exiting) (auto simp: e Inr x loop lib_calls_append)
  qed
qed simp

section \<open>The loop and its step relation\<close>

lemma main_loop_reach:
  assumes P: "platform_ok P"
  shows "daemon_inv P st \<Longrightarrow> reach init (main_step P) (Running st) \<Longrightarrow> main_loop P es st = (calls, r) \<Longrightarrow>
    (case r of
       Inl f \<Rightarrow> reach init (main_step P) (Crashed f)
     | Inr (st', exited) \<Rightarrow> (exited \<longleftrightarrow> (\<exists>(i, cmds) \<in> set es. ExitCmd \<in> set cmds)) \<and>
         reach init (main_step P) (if exited then Exited else Running st'))"
proof (induction es arbitrary: st calls r)
  case (Cons e es)
  obtain i cmds where e: "e = (i, cmds)" by fastforce
  show ?case
  proof (cases "main_turn P i cmds st")
    case (Inl f)
    with Cons.prems reach.step [OF Cons.prems(2) main_step.turn_crash [OF Inl]] show ?thesis by (auto simp: e)
  next
    case (Inr x)
    obtain st1 replies exiting wakes where x: "x = (st1, replies, exiting, wakes)" by (cases x)
    note turn = Inr [unfolded x]
    from main_turn_post [OF P Cons.prems(1), of cmds i] have 1: "daemon_inv P st1" "exiting \<longleftrightarrow> ExitCmd \<in> set cmds"
      by (auto simp: turn)
    show ?thesis
    proof (cases exiting)
      case True
      with Cons.prems(3) turn have "r = Inr (st1, True)" by (auto simp: e)
      moreover from turn True have "main_step P (Running st) (i, cmds, replies, wakes) Exited"
        by (auto intro: main_step.turn_exit)
      from reach.step [OF Cons.prems(2) this] have "reach init (main_step P) Exited" .
      ultimately show ?thesis using 1(2) True by (auto simp: e)
    next
      case False
      obtain calls' r' where loop: "main_loop P es st1 = (calls', r')" by fastforce
      with Cons.prems(3) turn False have r: "r' = r" by (auto simp: e)
      have ex: "(\<exists>(i, cmds) \<in> set (e # es). ExitCmd \<in> set cmds) \<longleftrightarrow> (\<exists>(i, cmds) \<in> set es. ExitCmd \<in> set cmds)"
        using 1(2) False by (simp add: e)
      from turn False have "main_step P (Running st) (i, cmds, replies, wakes) (Running st1)"
        by (auto intro: main_step.turn)
      from Cons.IH [OF 1(1) reach.step [OF Cons.prems(2) this] loop]
      show ?thesis unfolding r ex .
    qed
  qed
qed auto

section \<open>The program\<close>

text \<open>Either the program ends before its loop, or it runs the loop from the state of \<open>main_start\<close>.\<close>

lemma main_prog_cases:
  assumes "main_prog P L E name args env es st = Some (calls, out)"
  obtains (early) e s where "out = Terminated e" "lib_calls calls lib_start = Some s" "idl_phase s = Absent" "server_phase s = Absent"
  | (looped) pre st0 lp r s where "main_start P L E args env st = Some (Inr st0)" "main_loop P es st0 = (lp, r)"
      "(calls, out) = main_end (pre @ lp) r" "lib_calls (pre @ lp) lib_start = Some s" "ready s"
proof -
  let ?pre = "[SetProgramName name, ProctitleInit, FatalIgnoreSigpipe, OvsrecInit, DaemonizeStart]"
  from assms obtain res where res: "parse_options L args (None, env) = Some res"
    by (auto simp: main_prog_def Let_def split: option.splits)
  show thesis
  proof (cases "\<exists>remote path env'. res = Inr (remote, path, env') \<and> unixctl_server_create E path = 0")
    case False
    then have "\<exists>e. out = Terminated e \<and> lib_calls calls lib_start = Some (if \<exists>x. res = Inr x then lib_start\<lparr>classes_set := True\<rparr> else lib_start)"
      using assms res by (cases res) (auto simp: main_prog_def Let_def lib_start_def)
    then show thesis by (auto intro!: early simp: lib_start_def split: if_splits)
  next
    case True
    then obtain remote path env' where r: "res = Inr (remote, path, env')" and ok: "unixctl_server_create E path = 0" by blast
    define st0 where "st0 = fand_init P (yaml_new_config_handle E) (ovsdb_idl_create E remote) st"
    obtain lp r where lp: "main_loop P es st0 = (lp, r)" by fastforce
    let ?pre1 = "?pre @ [UnixctlServerCreate path True, UnixctlCommandRegister ''exit'']"
    let ?s0 = "\<lparr>classes_set = True, idl_phase = Absent, columns_set = ([], [], []), server_phase = InUse,
      commands_set = [''exit'']\<rparr>"
    have 0: "lib_calls ?pre1 lib_start = Some ?s0" by (simp add: lib_start_def)
    obtain s1 where 1: "lib_calls (fand_init_calls remote) ?s0 = Some s1" "ready s1"
      using fand_init_calls_ready [of ?s0 remote] by auto
    obtain s2 where 2: "lib_calls lp s1 = Some s2" "ready s2" using main_loop_ready [OF 1(2), of P es st0] lp by auto
    show thesis
    proof (rule looped [of st0 lp r "?pre1 @ fand_init_calls remote"])
      show "main_start P L E args env st = Some (Inr st0)" using res r ok by (simp add: main_start_def st0_def)
      show "(calls, out) = main_end ((?pre1 @ fand_init_calls remote) @ lp) r"
        using assms res r ok by (simp add: main_prog_def Let_def st0_def [symmetric] lp)
      show "lib_calls ((?pre1 @ fand_init_calls remote) @ lp) lib_start = Some s2"
        using 0 1(1) 2(1) by (simp only: lib_calls_append bind.bind_lunit)
    qed (rule lp, rule 2(2))
  qed
qed

section \<open>Properties\<close>

text \<open>
  C15: the life of the process. Whatever the command line, the replicas and the control commands: the
  calls of \<open>main\<close> keep to the order that the libraries ask for. The program returns only after an
  \<open>exit\<close> command, with 0, and has then destroyed its replica and its control socket; while it waits, both
  are in use and no \<open>exit\<close> was among the commands; when it ends before its loop, neither exists. It can
  only crash by an rpm overflow or a NULL pointer. What it runs through are states of the step relation
  of the main loop.
\<close>

theorem main_life:
  assumes "platform_ok P" "program_start st" "main_prog P L E name args env es st = Some (calls, out)"
  shows "\<exists>s. lib_calls calls lib_start = Some s \<and> (case out of
      Waiting st' \<Rightarrow> idl_phase s \<in> {Fresh, InUse} \<and> server_phase s = InUse \<and> daemon_inv P st' \<and>
        program_reaches P L E args env st (Running st') \<and> (\<forall>(i, cmds) \<in> set es. ExitCmd \<notin> set cmds)
    | Returned n \<Rightarrow> n = 0 \<and> idl_phase s = Gone \<and> server_phase s = Gone \<and>
        program_reaches P L E args env st Exited \<and> (\<exists>(i, cmds) \<in> set es. ExitCmd \<in> set cmds)
    | Terminated e \<Rightarrow> idl_phase s = Absent \<and> server_phase s = Absent
    | Faulted f \<Rightarrow> f \<in> {SignedOverflow, NullDeref} \<and> program_reaches P L E args env st (Crashed f))"
  using assms(3)
proof (cases rule: main_prog_cases)
  case (early e s)
  then show ?thesis by auto
next
  case (looped pre st0 lp r s)
  have inv: "daemon_inv P st0"
    using main_start_Inr [OF looped(1)] assms(1,2) by (auto simp: platform_ok_def fand_init_inv)
  have "program_reaches P L E args env st (Running st0)"
    using looped(1) by (auto simp: program_reaches_def intro: reach.start)
  note reaches = main_loop_reach [OF assms(1) inv this [unfolded program_reaches_def] looped(2), folded program_reaches_def]
  note ok = program_reaches_ok [OF assms(1,2)]
  show ?thesis
  proof (cases r)
    case (Inl f)
    with reaches have "program_reaches P L E args env st (Crashed f)" by simp
    with ok [OF this] looped(3,4) Inl show ?thesis by (auto simp: main_end_def process_ok_def)
  next
    case (Inr y)
    obtain st' exited where y: "y = (st', exited)" by fastforce
    show ?thesis
    proof (cases exited)
      case True
      have "lib_calls ((pre @ lp) @ fand_exit @ [UnixctlServerDestroy]) lib_start =
          Some (s\<lparr>idl_phase := Gone, server_phase := Gone\<rparr>)"
        using looped(5) unfolding lib_calls_append [of "pre @ lp"] looped(4) by (auto simp: fand_exit_def ready_def)
      with looped(3) reaches True show ?thesis by (auto simp: Inr y main_end_def)
    next
      case False
      with reaches have w: "program_reaches P L E args env st (Running st')" "\<forall>(i, cmds) \<in> set es. ExitCmd \<notin> set cmds"
        by (auto simp: Inr y)
      from ok [OF w(1)] looped(3-5) False w show ?thesis
        by (auto simp: Inr y main_end_def process_ok_def ready_def)
    qed
  qed
qed

end
