(* ===== verification/Fand_Columns.thy ===== *)
theory Fand_Columns
  imports Fand_Daemon
begin

text \<open>
  The columns of the database: which of them the transactions of a turn write, against what \<open>fand_init\<close>
  registers with the client library. Nothing is assumed of what a commit makes of its transaction.
\<close>

section \<open>Inputs\<close>

text \<open>
  The replica without the columns that the daemon writes: the Fan table, the fans of a subsystem, and
  \<open>cur_hw\<close>.
\<close>

definition inputs :: "ovsdb_idl \<Rightarrow> ovsdb_idl" where
  "inputs i = i\<lparr>idl_fans := [],
     idl_subsystems := map (\<lambda>r. r\<lparr>os_fans := []\<rparr>) (idl_subsystems i),
     idl_daemons := map (\<lambda>d. d\<lparr>od_cur_hw := 0\<rparr>) (idl_daemons i)\<rparr>"

lemma inputs_fans [simp]: "inputs (i\<lparr>idl_fans := rows\<rparr>) = inputs i"
  by (simp add: inputs_def)

lemma inputs_fan_row_init: "inputs (snd (fan_row_init P n i)) = inputs i"
  by (simp add: fan_row_init_def fan_row_update_def split: option.split prod.split)

lemma inputs_init_rows: "inputs (snd (init_rows P ns i)) = inputs i"
proof (induction ns arbitrary: i)
  case (Cons n ns)
  obtain u j where row: "fan_row_init P n i = (u, j)" by fastforce
  obtain us k where rows: "init_rows P ns j = (us, k)" by fastforce
  from inputs_fan_row_init [of P n i] Cons.IH [of j] show ?case by (simp add: row rows)
qed simp

lemma inputs_set_fans [simp]: "inputs (set_subsystem_fans u arr i) = inputs i"
  by (simp add: inputs_def set_subsystem_fans_def)

lemma inputs_fan_rows_staged: "inputs (fan_rows_staged P cfg fans i) = inputs i"
  using inputs_init_rows [of P "full_names (os_name cfg) fans" i]
  by (cases "init_rows P (full_names (os_name cfg) fans) i") (simp add: fan_rows_staged_def)

lemma inputs_cur_hw:
  assumes "set_cur_hw (idl_daemons i) = Some ds"
  shows "inputs (i\<lparr>idl_daemons := ds\<rparr>) = inputs i"
proof -
  have "map (\<lambda>d. d\<lparr>od_cur_hw := 0\<rparr>) ds = map (\<lambda>d. d\<lparr>od_cur_hw := 0\<rparr>) ds0" if "set_cur_hw ds0 = Some ds" for ds0
    using that by (induction ds0 arbitrary: ds) (auto split: if_splits)
  from this [OF assms] show ?thesis by (simp add: inputs_def)
qed

section \<open>Columns\<close>

text \<open>
  The columns of the model's tables whose content differs. A row of the Subsystem table holds its sensors
  themselves, so a change of either of these two columns counts as a change of both.
\<close>

definition changed_columns :: "ovsdb_idl \<Rightarrow> ovsdb_idl \<Rightarrow> (string \<times> string) list" where
  "changed_columns i i' = map fst (filter snd
     [((''daemon'', ''name''), map od_name (idl_daemons i') \<noteq> map od_name (idl_daemons i)),
      ((''daemon'', ''cur_hw''), map od_cur_hw (idl_daemons i') \<noteq> map od_cur_hw (idl_daemons i)),
      ((''fan'', ''name''), map of_name (idl_fans i') \<noteq> map of_name (idl_fans i)),
      ((''fan'', ''speed''), map of_speed (idl_fans i') \<noteq> map of_speed (idl_fans i)),
      ((''fan'', ''direction''), map of_direction (idl_fans i') \<noteq> map of_direction (idl_fans i)),
      ((''fan'', ''rpm''), map of_rpm (idl_fans i') \<noteq> map of_rpm (idl_fans i)),
      ((''fan'', ''status''), map of_status (idl_fans i') \<noteq> map of_status (idl_fans i)),
      ((''temp_sensor'', ''fan_state''), map os_temp_sensors (idl_subsystems i') \<noteq> map os_temp_sensors (idl_subsystems i)),
      ((''subsystem'', ''other_config''), map os_other_config (idl_subsystems i') \<noteq> map os_other_config (idl_subsystems i)),
      ((''subsystem'', ''name''), map os_name (idl_subsystems i') \<noteq> map os_name (idl_subsystems i)),
      ((''subsystem'', ''hw_desc_dir''), map os_hw_desc_dir (idl_subsystems i') \<noteq> map os_hw_desc_dir (idl_subsystems i)),
      ((''subsystem'', ''temp_sensors''), map os_temp_sensors (idl_subsystems i') \<noteq> map os_temp_sensors (idl_subsystems i)),
      ((''subsystem'', ''fans''), map os_fans (idl_subsystems i') \<noteq> map os_fans (idl_subsystems i))])"

lemma inputs_columns:
  assumes "inputs i' = inputs i"
  shows "map od_name (idl_daemons i') = map od_name (idl_daemons i)"
    "map os_temp_sensors (idl_subsystems i') = map os_temp_sensors (idl_subsystems i)"
    "map os_other_config (idl_subsystems i') = map os_other_config (idl_subsystems i)"
    "map os_name (idl_subsystems i') = map os_name (idl_subsystems i)"
    "map os_hw_desc_dir (idl_subsystems i') = map os_hw_desc_dir (idl_subsystems i)"
    "idl_get_seqno i' = idl_get_seqno i"
proof -
  show "map os_temp_sensors (idl_subsystems i') = map os_temp_sensors (idl_subsystems i)"
    "map os_other_config (idl_subsystems i') = map os_other_config (idl_subsystems i)"
    "map os_name (idl_subsystems i') = map os_name (idl_subsystems i)"
    "map os_hw_desc_dir (idl_subsystems i') = map os_hw_desc_dir (idl_subsystems i)"
    using arg_cong [OF assms, of "\<lambda>j. map os_temp_sensors (idl_subsystems j)"]
      arg_cong [OF assms, of "\<lambda>j. map os_other_config (idl_subsystems j)"]
      arg_cong [OF assms, of "\<lambda>j. map os_name (idl_subsystems j)"]
      arg_cong [OF assms, of "\<lambda>j. map os_hw_desc_dir (idl_subsystems j)"]
    by (simp_all add: inputs_def o_def)
  show "map od_name (idl_daemons i') = map od_name (idl_daemons i)"
    using arg_cong [OF assms, of "\<lambda>j. map od_name (idl_daemons j)"] by (simp add: inputs_def o_def)
  show "idl_get_seqno i' = idl_get_seqno i"
    using arg_cong [OF assms, of idl_get_seqno] by (simp add: inputs_def)
qed

text \<open>The columns that the daemon writes.\<close>

definition written_columns :: "(string \<times> string) list" where
  "written_columns = [(''subsystem'', ''fans''), (''fan'', ''status''), (''fan'', ''rpm''),
     (''fan'', ''direction''), (''fan'', ''speed''), (''fan'', ''name''), (''daemon'', ''cur_hw'')]"

lemma changed_own_columns:
  assumes "inputs i' = inputs i"
  shows "set (changed_columns i i') \<subseteq> set written_columns"
proof
  have flagged: "c \<in> set (map fst (filter snd (x # xs))) \<longleftrightarrow> c = fst x \<and> snd x \<or> c \<in> set (map fst (filter snd xs))"
    "c \<in> set (map fst (filter snd ([] :: ((string \<times> string) \<times> bool) list))) \<longleftrightarrow> False"
    for c x and xs :: "((string \<times> string) \<times> bool) list" by auto
  fix c assume "c \<in> set (changed_columns i i')"
  then show "c \<in> set written_columns"
    unfolding changed_columns_def written_columns_def inputs_columns [OF assms]
    by (simp only: flagged fst_conv snd_conv list.set empty_iff insert_iff simp_thms)
      (elim disjE conjE; simp only: simp_thms)
qed

section \<open>Commits\<close>

text \<open>
  A replica that is reached from another one by commits of transactions that write columns of \<open>cols\<close>
  only: \<open>j\<close> is the replica before such a transaction, \<open>k\<close> the one with its writes.
\<close>

inductive own_commits :: "('s, 'y, 'h) platform \<Rightarrow> (string \<times> string) list \<Rightarrow> ovsdb_idl \<Rightarrow> ovsdb_idl \<Rightarrow> bool"
  for P :: "('s, 'y, 'h) platform" and cols :: "(string \<times> string) list" where
  refl: "own_commits P cols i i"
| commit: "own_commits P cols i j \<Longrightarrow> set (changed_columns j k) \<subseteq> set cols \<Longrightarrow>
    own_commits P cols i (txn_commit_block P j k)"

lemma own_commits_trans: "own_commits P cols j k \<Longrightarrow> own_commits P cols i j \<Longrightarrow> own_commits P cols i k"
  by (induction rule: own_commits.induct) (auto intro: own_commits.commit)

lemma own_commits_mono: "own_commits P cols i j \<Longrightarrow> set cols \<subseteq> set cols' \<Longrightarrow> own_commits P cols' i j"
  by (induction rule: own_commits.induct) (auto intro: own_commits.intros)

abbreviation own :: "('s, 'y, 'h) platform \<Rightarrow> ovsdb_idl \<Rightarrow> ovsdb_idl \<Rightarrow> bool" where
  "own P \<equiv> own_commits P written_columns"

lemma own_commit: "inputs k = inputs j \<Longrightarrow> own P j (txn_commit_block P j k)"
  by (rule own_commits.commit [OF own_commits.refl changed_own_columns])

section \<open>The operations\<close>

text \<open>A well-formed daemon whose replica is reached from \<open>i\<close> by commits of its own columns.\<close>

definition own_reached :: "('s, 'y, 'h) platform \<Rightarrow> ovsdb_idl \<Rightarrow> ('s, 'y, 'h) fand \<Rightarrow> bool" where
  "own_reached P i st \<longleftrightarrow> fand_inv P st \<and> own P i (idl st)"

lemma get_subsystem_own:
  assumes P: "shash_ok P" "yaml_ok P" "fan_names_ok P" and inv: "fand_inv P st"
  shows "post {} (\<lambda>(r, st'). own P (idl st) (idl st')) (get_subsystem P cfg st)"
  using inv
proof (cases rule: subsystem_known_or_new [of P st "os_name cfg"])
  case (1 a ss)
  then show ?thesis by (simp add: get_subsystem_known [OF P(1) inv] own_commits.refl)
next
  case 2
  from add_subsystem_post [OF P(1-3) inv 2] show ?thesis
    unfolding get_subsystem_new [OF P(1) 2]
  proof (rule post_mono)
    fix x assume x: "subsys_added P cfg st x"
    obtain r st' where x': "x = (r, st')" by fastforce
    show "case x of (r, st') \<Rightarrow> own P (idl st) (idl st')"
      using x own_commit [OF inputs_fan_rows_staged]
      by (cases r) (auto simp: x' subsys_added_def Let_def own_commits.refl)
  qed
qed

lemma configure_subsystem_own:
  assumes "yaml_ok P" "fand_inv P st" "subsys_mem st a = Some ss"
  shows "post {} (\<lambda>st'. idl st' = idl st) (configure_subsystem P cfg a st)"
  using configure_subsystem_post [OF assms]
proof (rule post_mono)
  fix st' assume "bus_op (put_subsys a (configured cfg ss) st)
    (speed_trace P (yaml_handle st) (configured cfg ss) @ led_trace P ss st) st'"
  then have "same_daemon (put_subsys a (configured cfg ss) st) st'" by (simp add: bus_op_def)
  from same_daemon_fields [OF this] show "idl st' = idl st" by simp
qed

lemma reconfigure_subsystem_own:
  assumes P: "shash_ok P" "yaml_ok P" "fan_names_ok P" and st: "own_reached P i st"
  shows "post {} (own_reached P i) (reconfigure_subsystem P cfg st)"
proof -
  have inv: "fand_inv P st" and i: "own P i (idl st)" using st by (simp_all add: own_reached_def)
  have "post {} (\<lambda>st'. own P i (idl st')) (reconfigure_subsystem P cfg st)"
    unfolding reconfigure_subsystem_def
  proof (rule post_and_then)
    show "post {} (\<lambda>x. subsys_got P cfg st x \<and> (case x of (r, st') \<Rightarrow> own P (idl st) (idl st')))
        (get_subsystem P cfg st)"
      by (rule post_conj [OF get_subsystem_post [OF P(1-3) inv]], rule post_weaken [OF get_subsystem_own [OF P inv]])
        simp_all
    fix x assume x: "subsys_got P cfg st x \<and> (case x of (r, st') \<Rightarrow> own P (idl st) (idl st'))"
    obtain r st1 where x': "x = (r, st1)" by fastforce
    from x have "own P (idl st) (idl st1)" by (simp add: x')
    from own_commits_trans [OF this i] have i1: "own P i (idl st1)" .
    show "post {} (\<lambda>st'. own P i (idl st'))
        (case x of (None, st) \<Rightarrow> Inr st | (Some a, st) \<Rightarrow> configure_subsystem P cfg a st)"
    proof (cases r)
      case None
      with i1 show ?thesis by (simp add: x')
    next
      case (Some a)
      with x obtain ss where "subsys_mem st1 a = Some ss" "fand_inv P st1"
        by (auto simp: x' subsys_got_def split: if_splits)
      from configure_subsystem_own [OF P(2) this(2,1), of cfg] i1 Some show ?thesis
        by (auto simp: x' elim!: post_weaken)
    qed
  qed
  then have "post UNIV (\<lambda>st'. own P i (idl st')) (reconfigure_subsystem P cfg st)"
    by (rule post_weaken) auto
  from post_conj [OF reconfigure_subsystem_post [OF P(1-3) inv, of cfg] this] show ?thesis
    by (rule post_mono) (simp add: own_reached_def row_step_def)
qed

lemma fand_reconfigure_own:
  assumes P: "shash_ok P" "yaml_ok P" "fan_names_ok P" and inv: "fand_inv P st"
  shows "post {} (own_reached P (idl st)) (fand_reconfigure P st)"
proof -
  let ?I = "own_reached P (idl st)" and ?st0 = "st\<lparr>idl_seqno := idl_get_seqno (idl st)\<rparr>"
  have inv0: "fand_inv P ?st0" using inv by simp
  have "post {} ?I (and_then (fand_unmark_subsystems P ?st0) (\<lambda>st.
      and_then (foreach (reconfigure_subsystem P) (idl_subsystems (idl st)) st) (fand_remove_unmarked_subsystems P)))"
    using unmark_post [OF inv0]
  proof (rule post_and_then)
    fix st1 assume u: "unmarked ?st0 {} st1"
    then have "?I st1" using unmarked_start(2) [OF inv0 u] by (simp add: unmarked_def same_env_def own_reached_def own_commits.refl)
    then have "post {} ?I (foreach (reconfigure_subsystem P) (idl_subsystems (idl st1)) st1)"
      by (rule post_foreach) (rule reconfigure_subsystem_own [OF P])
    then show "post {} ?I (and_then (foreach (reconfigure_subsystem P) (idl_subsystems (idl st1)) st1)
        (fand_remove_unmarked_subsystems P))"
    proof (rule post_and_then)
      fix st2 assume s: "?I st2"
      then have "fand_inv P st2" by (simp add: own_reached_def)
      from sweep_post [OF P(1) this] show "post {} ?I (fand_remove_unmarked_subsystems P st2)"
        by (rule post_mono) (use s in \<open>simp add: swept_def same_env_def own_reached_def\<close>)
    qed
  qed
  with inv show ?thesis by (simp add: fand_reconfigure_def Let_def own_reached_def own_commits.refl)
qed

lemma status_read_own:
  assumes "status_read P st st'"
  shows "own P (idl st) (idl st')"
proof -
  have "inputs (staged P st s) = inputs (idl st)" for s
    by (auto simp: staged_def staged_rows_def sets_cur_hw_def Let_def inputs_cur_hw)
  from own_commit [OF this] assms show ?thesis by (auto simp: status_read_def intro: own_commits.refl)
qed

lemma fand_run_own:
  assumes P: "platform_ok P" and inv: "daemon_inv P st" and run: "fand_run P i st = Inr st'"
  shows "own P i (idl st')"
proof (cases "locked i")
  case False
  with run show ?thesis by (auto simp: fand_run_unlocked intro: own_commits.refl)
next
  case True
  have P': "shash_ok P" "yaml_ok P" "fan_names_ok P" using P(1) by (simp_all add: platform_ok_def)
  have "fand_inv P (st\<lparr>idl := i\<rparr>)" using inv by (simp add: daemon_inv_def)
  from post_total [OF fand_reconfigure_own [OF P' this]] obtain st1
    where 1: "fand_reconfigure P (st\<lparr>idl := i\<rparr>) = Inr st1" "fand_inv P st1" "own P i (idl st1)"
    by (auto simp: own_reached_def)
  with run True obtain st2 where 2: "fand_read_status P st1 = Inr st2" "st' = log_io DaemonizeComplete st2"
    by (auto simp: fand_run_locked and_then_Inr_iff)
  with fand_read_status_post [OF P'(1,2) 1(2)] have "status_read P st1 st2" by simp
  from own_commits_trans [OF status_read_own [OF this] 1(3)] show ?thesis by (simp add: 2(2))
qed

section \<open>Alerts\<close>

text \<open>
  The columns that a list of registering calls adds, and whether a change of the column raises an alert:
  it does, as the client library documents, unless the program asks for it to be omitted.
\<close>

fun column_alerts :: "idl_call list \<Rightarrow> ((string \<times> string) \<times> bool) list" where
  "column_alerts [] = []"
| "column_alerts (AddColumn t c # cs) = ((t, c), OmitAlert t c \<notin> set cs) # column_alerts cs"
| "column_alerts (AddTable t # cs) = column_alerts cs"
| "column_alerts (OmitAlert t c # cs) = column_alerts cs"

definition alerted :: "idl_call list \<Rightarrow> (string \<times> string) list" where
  "alerted cs = map fst (filter snd (column_alerts cs))"

definition unalerted :: "idl_call list \<Rightarrow> (string \<times> string) list" where
  "unalerted cs = map fst (filter (\<lambda>(c, a). \<not> a) (column_alerts cs))"

section \<open>Properties\<close>

text \<open>
  C33: the registration fits the daemon. The columns of \<open>fand_init\<close>'s registration that raise an alert are
  those of the configuration and of the sensors, and every transaction that a completed turn commits
  writes only columns that are registered without one. Of the commits nothing is assumed: each may fail,
  and may bring changes of other clients into the replica.
\<close>

theorem turn_writes_unalerted:
  assumes "platform_ok P" "daemon_inv P st" "fand_run P i st = Inr st'"
  shows "own_commits P (unalerted fand_init_registration) i (idl st') \<and>
    set (alerted fand_init_registration) = {(''daemon'', ''name''), (''temp_sensor'', ''fan_state''),
      (''subsystem'', ''other_config''), (''subsystem'', ''name''), (''subsystem'', ''hw_desc_dir''),
      (''subsystem'', ''temp_sensors'')}"
proof
  have "set written_columns \<subseteq> set (unalerted fand_init_registration)"
    by (simp add: written_columns_def unalerted_def fand_init_registration_def)
  with fand_run_own [OF assms] show "own_commits P (unalerted fand_init_registration) i (idl st')"
    by (rule own_commits_mono)
qed (auto simp: alerted_def fand_init_registration_def)

end
