(* ===== verification/Fand_Trace.thy ===== *)
theory Fand_Trace
  imports Fand_Daemon
begin

text \<open>
  What the operations add to the trace: refreshing the fans and updating the Fan table only read the bus
  and commit, setting the speed of a subsystem or its LEDs only writes to that subsystem.
\<close>

section \<open>Reading\<close>

definition inert :: "io_event \<Rightarrow> bool" where
  "inert e = (case e of I2cRead _ _ \<Rightarrow> True | CommitEvent \<Rightarrow> True | DaemonizeComplete \<Rightarrow> True | _ \<Rightarrow> False)"

lemma inert_simps [simp]:
  "inert (I2cRead n op)" "inert CommitEvent" "inert DaemonizeComplete"
  by (simp_all add: inert_def)

definition reads_only :: "('s, 'y, 'h) fand \<Rightarrow> ('s, 'y, 'h) fand \<Rightarrow> bool" where
  "reads_only st st' \<longleftrightarrow> (\<exists>es. io st' = io st @ es \<and> list_all inert es)"

lemma reads_only_refl [simp]: "reads_only st st"
  by (simp add: reads_only_def)

lemma reads_only_trans [trans]: "reads_only st st' \<Longrightarrow> reads_only st' st'' \<Longrightarrow> reads_only st st''"
  unfolding reads_only_def by force

lemma reads_only_io: "io s = io st' \<Longrightarrow> reads_only st s = reads_only st st'"
  by (simp add: reads_only_def)

text \<open>Steps that leave the trace alone, and those that read or commit.\<close>

lemma reads_only_other [simp]:
  "reads_only st (put_fan p f st') = reads_only st st'"
  "reads_only st (st'\<lparr>idl := i\<rparr>) = reads_only st st'"
  "reads_only st (st'\<lparr>cur_hw_set := b\<rparr>) = reads_only st st'"
  by (simp_all add: reads_only_def)

lemma reads_only_commit: "reads_only st st' \<Longrightarrow> reads_only st (commit_block P before st')"
  by (force simp: reads_only_def commit_block_def)

lemma reads_only_bus:
  assumes "bus_read P name op old st = (rc, v, st')" "reads_only s st"
  shows "reads_only s st'"
proof -
  have "io st' = io st @ [I2cRead name op]" using assms(1) io_read [of P name op old st] by simp
  with assms(2) show ?thesis by (force simp: reads_only_def)
qed

lemma fand_read_rpm_reads: "reads_only s st \<Longrightarrow> fand_read_rpm P name fan st = (r, st') \<Longrightarrow> reads_only s st'"
  by (auto simp: fand_read_rpm_def split: prod.splits if_splits option.splits intro: reads_only_bus)

lemma physfan_read_status_reads:
  "reads_only s st \<Longrightarrow> physfan_read_status P name fan st = (r, st') \<Longrightarrow> reads_only s st'"
  by (auto simp: physfan_read_status_def split: prod.splits if_splits intro: reads_only_bus)

lemma fand_read_direction_reads:
  assumes "fand_read_direction P name fan st = Inr (d, st')" "reads_only s st"
  shows "reads_only s st'"
proof -
  have 1: "reads_only s st2" if "fand_read_fan_fru_direction P name fru info st = Inr (e, st2)" for fru info e st2
    using that assms(2) by (auto simp: fand_read_fan_fru_direction_def and_then_Inr_iff
        split: prod.splits if_splits option.splits intro: reads_only_bus)
  from assms show ?thesis
    by (auto simp: fand_read_direction_def and_then_Inr_iff Let_def
        split: option.splits prod.splits if_splits intro: 1)
qed

lemma fand_read_present_reads:
  assumes "fand_read_present P name fru st = Inr (b, st')" "reads_only s st"
  shows "reads_only s st'"
proof -
  from assms(1) obtain x where x: "fru = Some x" by (cases fru) (simp_all add: fand_read_present_def)
  show ?thesis
  proof (cases "fru_fan_present x")
    case (Some op)
    obtain rc v st1 where "bus_read P name (Some op) (stack_junk P) st = (rc, v, st1)"
      by (cases "bus_read P name (Some op) (stack_junk P) st")
    with assms x Some show ?thesis by (auto simp: fand_read_present_def intro: reads_only_bus)
  qed (use assms x in \<open>simp add: fand_read_present_def\<close>)
qed

lemma fand_read_present_fan_reads:
  assumes "fand_read_present_fan P p ss fan st = Inr st'" "reads_only s st"
  shows "reads_only s st'"
proof -
  obtain raw st1 where 1: "fand_read_rpm P (ls_name ss) (yaml_fan fan) st = (raw, st1)" by fastforce
  with assms(1) obtain r where "st' = (let (x, st2) = physfan_read_status P (ls_name ss) (yaml_fan fan) (put_fan p (fan\<lparr>rpm := r\<rparr>) st1)
      in put_fan p (fan\<lparr>rpm := r, status := x\<rparr>) st2)"
    unfolding fand_read_present_fan_def 1 Let_def prod.case and_then_Inr_iff split_beta by auto
  moreover obtain x st2 where 2: "physfan_read_status P (ls_name ss) (yaml_fan fan) (put_fan p (fan\<lparr>rpm := r\<rparr>) st1) = (x, st2)"
    by fastforce
  moreover from fand_read_rpm_reads [OF assms(2) 1] have "reads_only s (put_fan p (fan\<lparr>rpm := r\<rparr>) st1)" by simp
  note physfan_read_status_reads [OF this 2]
  ultimately show ?thesis by simp
qed

lemma fand_read_fan_status_reads:
  assumes "fand_read_fan_status P p st = Inr st'" "reads_only s st"
  shows "reads_only s st'"
proof -
  from assms(1) obtain fan ss where "get_fan p st = Inr fan" "get_subsys (subsystem fan) st = Inr ss"
    by (auto simp: fand_read_fan_status_def and_then_Inr_iff)
  with assms(1) obtain d st1 fru present st2
    where 1: "fand_read_direction P (ls_name ss) (yaml_fan fan) st = Inr (d, st1)"
      and 2: "fand_read_present P (ls_name ss) fru (put_fan p (fan\<lparr>direction := d\<rparr>) st1) = Inr (present, st2)"
      and 3: "(if \<not> present then Inr (put_fan p (fan\<lparr>direction := d, status := FAND_STATUS_FAULT, rpm := 0\<rparr>) st2)
        else fand_read_present_fan P p ss (fan\<lparr>direction := d\<rparr>) st2) = Inr st'"
    by (auto simp: fand_read_fan_status_def and_then_Inr_iff Let_def)
  from fand_read_direction_reads [OF 1 assms(2)] have "reads_only s (put_fan p (fan\<lparr>direction := d\<rparr>) st1)" by simp
  note r2 = fand_read_present_reads [OF 2 this]
  show ?thesis
  proof (cases present)
    case True
    with 3 have "fand_read_present_fan P p ss (fan\<lparr>direction := d\<rparr>) st2 = Inr st'" by simp
    from fand_read_present_fan_reads [OF this r2] show ?thesis .
  next
    case False
    with 3 have "st' = put_fan p (fan\<lparr>direction := d, status := FAND_STATUS_FAULT, rpm := 0\<rparr>) st2" by simp
    with r2 show ?thesis by simp
  qed
qed

section \<open>Refreshing and updating the table\<close>

lemma reads_only_foreach:
  assumes "\<And>x s s'. f x s = Inr s' \<Longrightarrow> reads_only s s'"
  shows "foreach f xs st = Inr st' \<Longrightarrow> reads_only st st'"
proof (induction xs arbitrary: st)
  case (Cons x xs)
  then obtain s where "f x st = Inr s" "foreach f xs s = Inr st'" by (auto simp: and_then_Inr_iff)
  with Cons.IH assms show ?case by (blast intro: reads_only_trans)
qed simp

lemma refresh_subsystem_reads: "refresh_subsystem P nd st = Inr st' \<Longrightarrow> reads_only st st'"
proof -
  have fan: "reads_only s s'" if run: "refresh_fan P a x s = Inr s'" for a x s s'
  proof -
    from run obtain fan where "fand_read_fan_status P (snd x) (put_fan (snd x) fan s) = Inr s'"
      by (auto simp: refresh_fan_def and_then_Inr_iff)
    from fand_read_fan_status_reads [OF this, of s] show ?thesis by simp
  qed
  assume "refresh_subsystem P nd st = Inr st'"
  then show ?thesis by (auto simp: refresh_subsystem_def and_then_Inr_iff intro: reads_only_foreach fan)
qed

lemma fand_read_status_reads:
  assumes "fand_read_status P st = Inr st'"
  shows "reads_only st st'"
proof -
  from assms obtain st1 where 1: "foreach (refresh_subsystem P) (shash_nodes P (subsystem_data st)) st = Inr st1"
    by (auto simp: fand_read_status_def and_then_Inr_iff)
  with assms obtain rows change where "sync_fan_rows P st1 (idl_fans (idl st1)) False = Inr (rows, change)"
    by (cases "sync_fan_rows P st1 (idl_fans (idl st1)) False") (auto simp: fand_read_status_def)
  moreover obtain c s where 3: "first_cur_hw (change, st1\<lparr>idl := (idl st1)\<lparr>idl_fans := rows\<rparr>\<rparr>) = (c, s)"
    by fastforce
  ultimately have 2: "st' = (if c then commit_block P (idl st1) s else s)"
    using assms 1 by (simp add: fand_read_status_def)
  have "io s = io st1"
    using 3 by (auto simp: first_cur_hw_def split: if_splits option.splits)
  from reads_only_foreach [OF refresh_subsystem_reads 1] have "reads_only st st1" .
  then have "reads_only st s" using reads_only_io [OF \<open>io s = io st1\<close>] by blast
  then show ?thesis using reads_only_commit by (auto simp: 2)
qed

section \<open>Writing\<close>

text \<open>The LEDs of a subsystem's description: its own and those of its FRUs.\<close>

definition opt_list :: "'a option \<Rightarrow> 'a list" where
  "opt_list x = (case x of None \<Rightarrow> [] | Some y \<Rightarrow> [y])"

lemma opt_list_simps [simp]: "opt_list None = []" "opt_list (Some y) = [y]"
  by (simp_all add: opt_list_def)

definition led_controls :: "('s, 'y, 'h) platform \<Rightarrow> 'y \<Rightarrow> string \<Rightarrow> i2c_op list" where
  "led_controls P y n = (case yaml_get_fan_info P y n of
     None \<Rightarrow> []
   | Some info \<Rightarrow> opt_list (info_fan_led info) @
       concat (map (\<lambda>i. case yaml_get_fan_fru P y n i of None \<Rightarrow> [] | Some fru \<Rightarrow> opt_list (fru_fan_leds fru))
         [0 ..< number_fan_frus info]))"

text \<open>
  Events after which the speed last commanded for the subsystem \<open>n\<close> still is the last one: no command
  for \<open>n\<close> is logged, and what is written to \<open>n\<close> is written to an LED.
\<close>

definition leaves_speed :: "('s, 'y, 'h) platform \<Rightarrow> 'y \<Rightarrow> string \<Rightarrow> io_event \<Rightarrow> bool" where
  "leaves_speed P y n e = (case e of
     FanSpeedEvent m _ _ \<Rightarrow> m \<noteq> n
   | I2cWrite m op _ \<Rightarrow> m \<noteq> n \<or> op \<in> Some ` set (led_controls P y n)
   | _ \<Rightarrow> True)"

lemma leaves_speed_simps [simp]:
  "leaves_speed P y n (I2cRead m op)" "leaves_speed P y n CommitEvent" "leaves_speed P y n DaemonizeComplete"
  "leaves_speed P y n (FanCountEvent m k)" "leaves_speed P y n (FanSpeedEvent m l v) \<longleftrightarrow> m \<noteq> n"
  "leaves_speed P y n (I2cWrite m op v) \<longleftrightarrow> m \<noteq> n \<or> op \<in> Some ` set (led_controls P y n)"
  by (simp_all add: leaves_speed_def)

lemma inert_leaves_speed: "inert e \<Longrightarrow> leaves_speed P y n e"
  by (cases e) (simp_all add: inert_def)

lemma leaves_speed_view:
  assumes "yaml_view P y' n = yaml_view P y n"
  shows "leaves_speed P y' n = leaves_speed P y n"
proof -
  have "led_controls P y' n = led_controls P y n"
    using assms by (simp add: led_controls_def yaml_view_def cong: option.case_cong)
  then show ?thesis unfolding leaves_speed_def fun_eq_iff by (simp only: simp_thms)
qed

lemma speed_trace_view:
  assumes "yaml_view P y' (ls_name ss) = yaml_view P y (ls_name ss)"
  shows "speed_trace P y' ss = speed_trace P y ss"
proof -
  have i: "yaml_get_fan_info P y' (ls_name ss) = yaml_get_fan_info P y (ls_name ss)"
    and f: "yaml_get_fan_fru P y' (ls_name ss) = yaml_get_fan_fru P y (ls_name ss)"
    using assms by (simp_all add: yaml_view_def)
  show ?thesis unfolding speed_trace_def speed_writes_def i f ..
qed

text \<open>A speed command and the LED writes go to their subsystem only.\<close>

lemma set_opt_write: "e \<in> set (opt_write n v c) \<Longrightarrow> \<exists>op. c = Some op \<and> e = I2cWrite n (Some op) v"
  by (auto simp: opt_write_def split: option.splits)

lemma speed_writes_to:
  assumes "e \<in> set (speed_writes P y info n v)"
  shows "\<exists>op. e = I2cWrite n (Some op) v"
  using assms by (cases "fan_speed_control_type info")
    (auto simp: speed_writes_def dest!: set_opt_write split: option.splits)

lemma speed_trace_elsewhere:
  assumes "e \<in> set (speed_trace P y ss)" "m \<noteq> ls_name ss"
  shows "leaves_speed P y' m e"
  using assms by (auto simp: speed_trace_def dest!: speed_writes_to split: option.splits prod.splits)

lemma led_trace_leaves_speed:
  assumes e: "e \<in> set (led_trace P ss st)"
  shows "leaves_speed P (yaml_handle st) m e"
proof -
  let ?n = "ls_name ss" and ?y = "yaml_handle st"
  from e obtain info where info: "yaml_get_fan_info P ?y ?n = Some info"
    by (cases "yaml_get_fan_info P ?y ?n") (simp_all add: led_trace_def)
  have "\<exists>op v. e = I2cWrite ?n (Some op) v \<and> op \<in> set (led_controls P ?y ?n)"
    using e by (force simp: led_trace_def fru_led_writes_def led_controls_def info dest!: set_opt_write
        split: option.splits)
  then show ?thesis by auto
qed

section \<open>Properties\<close>

text \<open>
  C28: a turn without a change. While the sequence number of the replica stays the same, a turn writes
  nothing to the bus: neither a speed nor an LED, whatever the fans report. It reads, may commit, and
  releases the parent process at the end; without the lock it does nothing at all.
\<close>

theorem unchanged_turn_reads_only:
  assumes "idl_get_seqno i = idl_seqno st" "fand_run P i st = Inr st'"
  shows "\<exists>es. io st' = io st @ es \<and>
    (\<forall>e \<in> set es. (\<exists>n op. e = I2cRead n op) \<or> e = CommitEvent \<or> e = DaemonizeComplete) \<and>
    (if locked i then es \<noteq> [] \<and> last es = DaemonizeComplete else es = [])"
proof (cases "locked i")
  case True
  with assms obtain st1 where 1: "fand_read_status P (st\<lparr>idl := i\<rparr>) = Inr st1" "st' = log_io DaemonizeComplete st1"
    by (auto simp: fand_run_locked and_then_Inr_iff fand_reconfigure_def)
  from fand_read_status_reads [OF this(1)] obtain es where "io st1 = io st @ es" "list_all inert es"
    by (auto simp: reads_only_def)
  moreover have "(\<exists>n op. e = I2cRead n op) \<or> e = CommitEvent \<or> e = DaemonizeComplete" if "inert e" for e
    using that by (cases e) (simp_all add: inert_def)
  ultimately show ?thesis using True 1(2)
    by (intro exI [of _ "es @ [DaemonizeComplete]"]) (auto simp: list_all_iff)
next
  case False
  with assms show ?thesis by (auto simp: fand_run_unlocked)
qed

end
