(* ===== verification/Block_Property.thy ===== *)
theory Block_Property
  imports Fand_Trace
begin

text \<open>
  Properties of each valid subsystem that a turn of the daemon keeps: what such a property must promise
  is a contract (a locale), under which it holds of every valid subsystem after any number of turns.
\<close>

section \<open>The contract\<close>

text \<open>A property of the description handle, the trace and a subsystem, for all valid subsystems.\<close>

definition each_valid :: "('y \<Rightarrow> io_event list \<Rightarrow> 's locl_subsystem \<Rightarrow> bool) \<Rightarrow> ('s, 'y, 'h) fand \<Rightarrow> bool" where
  "each_valid Q st \<longleftrightarrow> (\<forall>a ss. subsys_mem st a = Some ss \<and> valid ss \<longrightarrow> Q (yaml_handle st) (io st) ss)"

text \<open>
  It depends on the subsystem's own description only; it survives events that leave the subsystem's speed
  alone and the changes of the mark; and it holds when the subsystem has been added or configured, with
  the speed command as the last thing that was done.
\<close>

locale block_property =
  fixes P :: "('s, 'y, 'h) platform" and Q :: "'y \<Rightarrow> io_event list \<Rightarrow> 's locl_subsystem \<Rightarrow> bool"
  assumes view: "yaml_view P y' (ls_name ss) = yaml_view P y (ls_name ss) \<Longrightarrow> Q y es ss \<Longrightarrow> Q y' es ss"
    and later: "Q y es ss \<Longrightarrow> \<forall>e \<in> set es'. leaves_speed P y (ls_name ss) e \<Longrightarrow> Q y (es @ es') ss"
    and mark: "Q y es ss \<Longrightarrow> Q y es (ss\<lparr>marked := b\<rparr>)"
    and configure: "Q y es ss \<Longrightarrow> Q y (es @ speed_trace P y (configured cfg ss)) (configured cfg ss)"
    and add: "yaml_get_fan_info P y (ls_name ss) = Some info \<Longrightarrow>
      multiplier ss = fan_speed_multiplier info \<Longrightarrow> numerator ss = fan_speed_numerator info \<Longrightarrow>
      speed ss = fand_choose_speed ss \<Longrightarrow> Q y (es @ speed_trace P y ss) ss"
begin

lemma each_later:
  assumes "each_valid Q st" "subsys_mem st' = subsys_mem st" "yaml_handle st' = yaml_handle st"
    and "io st' = io st @ es" "\<And>m e. e \<in> set es \<Longrightarrow> leaves_speed P (yaml_handle st) m e"
  shows "each_valid Q st'"
  using assms later unfolding each_valid_def by metis

text \<open>Looking up.\<close>

lemma subsys_added_each:
  assumes inv: "fand_inv P st" and fresh: "os_name cfg \<notin> fst ` set (shash_nodes P (subsystem_data st))"
    and each: "each_valid Q st" and x: "subsys_added P cfg st (r, st')"
  shows "each_valid Q st'"
  unfolding each_valid_def
proof (intro allI impI, elim conjE)
  fix b s assume s: "subsys_mem st' b = Some s" and v: "valid s"
  from x obtain ss where ss: "subsys_mem st' (next_addr st) = Some ss" "ls_name ss = os_name cfg"
      "valid ss = (r \<noteq> None)"
    and other: "\<forall>m. m \<noteq> os_name cfg \<longrightarrow> yaml_view P (yaml_handle st') m = yaml_view P (yaml_handle st) m"
    and old: "\<forall>b. b \<noteq> next_addr st \<longrightarrow> subsys_mem st' b = subsys_mem st b"
    and none: "r = None \<longrightarrow> io st' = io st"
    and some: "r \<noteq> None \<longrightarrow> speed ss = fand_choose_speed ss \<and>
       (\<exists>info. yaml_get_fan_info P (yaml_handle st') (os_name cfg) = Some info \<and>
          multiplier ss = fan_speed_multiplier info \<and> numerator ss = fan_speed_numerator info) \<and>
       io st' = io st @ [FanCountEvent (os_name cfg) (length (yaml_fans P (yaml_handle st') (os_name cfg))),
         CommitEvent] @ speed_trace P (yaml_handle st') ss"
    unfolding subsys_added_def prod.case Let_def by (cases r) auto
  show "Q (yaml_handle st') (io st') s"
  proof (cases "b = next_addr st")
    case True
    with s v ss have "s = ss" "r \<noteq> None" by auto
    with some obtain info es where "yaml_get_fan_info P (yaml_handle st') (ls_name s) = Some info"
      "multiplier s = fan_speed_multiplier info" "numerator s = fan_speed_numerator info"
      "speed s = fand_choose_speed s" "io st' = es @ speed_trace P (yaml_handle st') s"
      using ss(2) by (metis append.assoc)
    with add show ?thesis by metis
  next
    case False
    with s old have b: "subsys_mem st b = Some s" by simp
    then have n: "ls_name s \<noteq> os_name cfg" using inv_subsys_node [OF inv b] fresh by force
    have "\<exists>es. io st' = io st @ es \<and> (\<forall>e \<in> set es. leaves_speed P (yaml_handle st) (ls_name s) e)"
    proof (cases r)
      case None
      with none show ?thesis by auto
    next
      case (Some p)
      then have r: "r \<noteq> None" by simp
      with some n ss(2) show ?thesis
        by (intro exI [of _ "drop (length (io st)) (io st')"]) (auto intro: speed_trace_elsewhere)
    qed
    with each b v have "Q (yaml_handle st) (io st') s" unfolding each_valid_def by (metis later)
    from view [OF _ this] other n show ?thesis by simp
  qed
qed

lemma get_subsystem_each:
  assumes P: "shash_ok P" "yaml_ok P" "fan_names_ok P" and inv: "fand_inv P st" and each: "each_valid Q st"
  shows "post {} (\<lambda>(r, st'). each_valid Q st') (get_subsystem P cfg st)"
  using inv
proof (cases rule: subsystem_known_or_new [of P st "os_name cfg"])
  case (1 a ss)
  then show ?thesis using each by (simp add: get_subsystem_known [OF P(1) inv 1])
next
  case 2
  show ?thesis unfolding get_subsystem_new [OF P(1) 2]
    by (rule post_mono [OF add_subsystem_post [OF P inv 2]]) (auto intro: subsys_added_each [OF inv 2 each])
qed

text \<open>Configuring.\<close>

lemma configure_each:
  assumes inv: "fand_inv P st" and ss: "subsys_mem st a = Some ss" and each: "each_valid Q st"
    and b: "bus_op (put_subsys a (configured cfg ss) st)
      (speed_trace P (yaml_handle st) (configured cfg ss) @ led_trace P ss st) st'"
  shows "each_valid Q st'"
  unfolding each_valid_def
proof (intro allI impI, elim conjE)
  let ?y = "yaml_handle st" and ?ss = "configured cfg ss"
  fix c s assume s: "subsys_mem st' c = Some s" and v: "valid s"
  have f: "subsys_mem st' = (subsys_mem st)(a \<mapsto> ?ss)" "yaml_handle st' = ?y"
    "io st' = (io st @ speed_trace P ?y ?ss) @ led_trace P ss st"
    using b by (auto simp: bus_op_def dest: same_daemon_fields)
  have leds: "\<forall>e \<in> set (led_trace P ss st). leaves_speed P ?y m e" for m
    by (simp add: led_trace_leaves_speed)
  have "Q ?y (io st @ speed_trace P ?y ?ss) s"
  proof (cases "c = a")
    case True
    with s f(1) have "s = ?ss" by simp
    moreover from this v ss each have "Q ?y (io st) ss" by (simp add: each_valid_def)
    ultimately show ?thesis by (simp add: configure)
  next
    case False
    with s f(1) have c: "subsys_mem st c = Some s" by simp
    with False inv_subsys_name_inject [OF inv c ss] have "ls_name s \<noteq> ls_name ?ss" by auto
    then have "\<forall>e \<in> set (speed_trace P ?y ?ss). leaves_speed P ?y (ls_name s) e"
      by (auto intro: speed_trace_elsewhere)
    moreover from c v each have "Q ?y (io st) s" by (auto simp: each_valid_def)
    ultimately show ?thesis by (rule later [rotated])
  qed
  from later [OF this leds] show "Q (yaml_handle st') (io st') s" by (simp add: f)
qed

lemma reconfigure_subsystem_each:
  assumes P: "shash_ok P" "yaml_ok P" "fan_names_ok P" and inv: "fand_inv P st" and each: "each_valid Q st"
  shows "post {} (each_valid Q) (reconfigure_subsystem P cfg st)"
  unfolding reconfigure_subsystem_def
  using post_conj [OF get_subsystem_post [OF P inv, of cfg]
    post_weaken [OF get_subsystem_each [OF P inv each, of cfg]], OF _ subset_UNIV]
proof (rule post_and_then)
  fix x assume x: "subsys_got P cfg st x \<and> (case x of (r, st') \<Rightarrow> each_valid Q st')"
  obtain r st1 where x': "x = (r, st1)" by (cases x)
  show "post {} (each_valid Q) (case x of (None, st) \<Rightarrow> Inr st | (Some a, st) \<Rightarrow> configure_subsystem P cfg a st)"
  proof (cases r)
    case None
    with x show ?thesis by (simp add: x')
  next
    case (Some a)
    with x have "subsys_got P cfg st (Some a, st1)" and e1: "each_valid Q st1" by (simp_all add: x')
    from row_step_configured [OF this(1)] obtain ss
      where i1: "fand_inv P st1" and ss: "subsys_mem st1 a = Some ss" by blast
    from configure_subsystem_post [OF P(2) i1 ss, of cfg]
    have "post {} (each_valid Q) (configure_subsystem P cfg a st1)"
      by (rule post_mono) (rule configure_each [OF i1 ss e1])
    with Some show ?thesis by (simp add: x')
  qed
qed simp_all

section \<open>Reconfiguring and reading\<close>

lemma fand_reconfigure_each:
  assumes P: "shash_ok P" "yaml_ok P" "fan_names_ok P" and inv: "fand_inv P st" and each: "each_valid Q st"
  shows "post {} (\<lambda>st'. fand_inv P st' \<and> each_valid Q st') (fand_reconfigure P st)"
proof -
  let ?I = "\<lambda>st'. fand_inv P st' \<and> each_valid Q st'"
  let ?st0 = "st\<lparr>idl_seqno := idl_get_seqno (idl st)\<rparr>"
  have inv0: "fand_inv P ?st0" using inv by simp
  have "post {} ?I (and_then (fand_unmark_subsystems P ?st0) (\<lambda>st.
      and_then (foreach (reconfigure_subsystem P) (idl_subsystems (idl st)) st) (fand_remove_unmarked_subsystems P)))"
    using unmark_post [OF inv0]
  proof (rule post_and_then)
    fix st1 assume u: "unmarked ?st0 {} st1"
    then have "each_valid Q st1"
      using each mark by (auto simp: each_valid_def unmarked_def same_env_def)
    with unmarked_start(2) [OF inv0 u] have "?I st1" by simp
    then have "post {} ?I (foreach (reconfigure_subsystem P) (idl_subsystems (idl st1)) st1)"
    proof (rule post_foreach)
      fix c s assume "?I s"
      then have s: "fand_inv P s" "each_valid Q s" by simp_all
      from post_total [OF reconfigure_subsystem_each [OF P s]] obtain s'
        where run: "reconfigure_subsystem P c s = Inr s'" "each_valid Q s'" by blast
      with reconfigure_subsystem_post [OF P s(1), of c] show "post {} ?I (reconfigure_subsystem P c s)"
        by (simp add: row_step_def)
    qed
    then show "post {} ?I (and_then (foreach (reconfigure_subsystem P) (idl_subsystems (idl st1)) st1)
        (fand_remove_unmarked_subsystems P))"
    proof (rule post_and_then)
      fix st2 assume s: "?I st2"
      then have "fand_inv P st2" by simp
      from sweep_post [OF P(1) this] show "post {} ?I (fand_remove_unmarked_subsystems P st2)"
        by (rule post_mono) (use s in \<open>auto simp: swept_def same_env_def each_valid_def\<close>)
    qed
  qed
  with inv each show ?thesis by (simp add: fand_reconfigure_def Let_def)
qed

lemma fand_read_status_each:
  assumes P: "shash_ok P" "yaml_ok P" and inv: "fand_inv P st" and each: "each_valid Q st"
    and run: "fand_read_status P st = Inr st'"
  shows "each_valid Q st'"
proof -
  from fand_read_status_post [OF P inv] run have "status_read P st st'" by simp
  then have f: "subsys_mem st' = subsys_mem st" "yaml_handle st' = yaml_handle st"
    by (simp_all add: status_read_def same_links_def)
  from fand_read_status_reads [OF run] obtain es where "io st' = io st @ es" "list_all inert es"
    by (auto simp: reads_only_def)
  then show ?thesis
    by (intro each_later [OF each f, of es]) (auto simp: list_all_iff inert_leaves_speed)
qed

lemma fand_run_each:
  assumes P: "platform_ok P" and inv: "fand_inv P st" and each: "each_valid Q st"
    and run: "fand_run P i st = Inr st'"
  shows "each_valid Q st'"
proof (cases "locked i")
  case True
  let ?st = "st\<lparr>idl := i\<rparr>"
  have P': "shash_ok P" "yaml_ok P" "fan_names_ok P" using P by (simp_all add: platform_ok_def)
  have "fand_inv P ?st" "each_valid Q ?st" using inv each by (simp_all add: each_valid_def)
  from post_total [OF fand_reconfigure_each [OF P' this]] obtain st1
    where 1: "fand_reconfigure P ?st = Inr st1" "fand_inv P st1" "each_valid Q st1" by blast
  with run True obtain st2 where 2: "fand_read_status P st1 = Inr st2" "st' = log_io DaemonizeComplete st2"
    by (auto simp: fand_run_locked and_then_Inr_iff)
  have "each_valid Q (log_io DaemonizeComplete st2)"
    by (rule each_later [OF fand_read_status_each [OF P'(1,2) 1(2,3) 2(1)], of _ "[DaemonizeComplete]"]) simp_all
  then show ?thesis by (simp add: 2(2))
next
  case False
  with run each show ?thesis by (auto simp: fand_run_unlocked each_valid_def)
qed

text \<open>So it holds in every state between two turns.\<close>

lemma reach_each:
  assumes "reach (process_start P) (main_step P) (Running st)"
  shows "each_valid Q st"
proof -
  have "\<forall>st. p = Running st \<longrightarrow> each_valid Q st" if "reach (process_start P) (main_step P) p" for p
    using that
  proof (induction rule: reach.induct)
    case (start p)
    then show ?case by (auto simp: process_start_def fand_init_def init_subsystems_def program_start_def
        no_blocks_def each_valid_def)
  next
    case (step p l p')
    have ok: "process_ok P p" by (rule daemon_system.reach_inv [OF step.hyps(1)])
    from step.hyps(2) step.IH ok show ?case
      by cases (auto simp: process_ok_def daemon_inv_def main_turn_def and_then_Inr_iff intro: fand_run_each)
  qed
  with assms show ?thesis by blast
qed

end

end
