(* ===== verification/Fand_Control.thy ===== *)
theory Fand_Control
  imports Block_Property
begin

text \<open>
  The daemon as a controller: an abstract machine that holds the speed level of each subsystem and knows
  neither blocks nor hash tables nor the bus, the refinement of that machine by the main loop, and the
  proof that the levels of the machine are the ones in force on the hardware.
\<close>

section \<open>The speed in force\<close>

text \<open>
  The last speed command in the trace for the subsystem is the one of its speed: the logged event with
  the level's name and byte, followed by the writes to all of its speed controls.
\<close>

definition speed_in_force :: "('s, 'y, 'h) platform \<Rightarrow> 'y \<Rightarrow> io_event list \<Rightarrow> 's locl_subsystem \<Rightarrow> bool" where
  "speed_in_force P y es ss \<longleftrightarrow> speed ss = fand_choose_speed ss \<and>
     (\<exists>pre after. es = pre @ speed_trace P y ss @ after \<and> (\<forall>e \<in> set after. leaves_speed P y (ls_name ss) e))"

text \<open>The scaling factors are those of the description.\<close>

definition factors_described :: "('s, 'y, 'h) platform \<Rightarrow> 'y \<Rightarrow> io_event list \<Rightarrow> 's locl_subsystem \<Rightarrow> bool" where
  "factors_described P y es ss \<longleftrightarrow> (\<exists>info. yaml_get_fan_info P y (ls_name ss) = Some info \<and>
     multiplier ss = fan_speed_multiplier info \<and> numerator ss = fan_speed_numerator info)"

lemma marked_cong:
  "fand_choose_speed (ss\<lparr>marked := b\<rparr>) = fand_choose_speed ss"
  "speed_trace P y (ss\<lparr>marked := b\<rparr>) = speed_trace P y ss"
  by (rule choose_speed_cong speed_trace_cong; simp)+

interpretation force: block_property P "speed_in_force P"
  for P :: "('s, 'y, 'h) platform"
proof
  fix y y' es and ss :: "'s locl_subsystem"
  assume v: "yaml_view P y' (ls_name ss) = yaml_view P y (ls_name ss)" and "speed_in_force P y es ss"
  then show "speed_in_force P y' es ss"
    unfolding speed_in_force_def leaves_speed_view [OF v] speed_trace_view [OF v] by simp
next
  fix y es es' and ss :: "'s locl_subsystem"
  assume "speed_in_force P y es ss" and es': "\<forall>e \<in> set es'. leaves_speed P y (ls_name ss) e"
  then obtain pre after where "speed ss = fand_choose_speed ss" "es = pre @ speed_trace P y ss @ after"
    "\<forall>e \<in> set after. leaves_speed P y (ls_name ss) e"
    unfolding speed_in_force_def by blast
  with es' show "speed_in_force P y (es @ es') ss"
    unfolding speed_in_force_def by (intro conjI exI [of _ pre] exI [of _ "after @ es'"]) auto
next
  fix y es b and ss :: "'s locl_subsystem"
  assume "speed_in_force P y es ss"
  then show "speed_in_force P y es (ss\<lparr>marked := b\<rparr>)" by (simp add: speed_in_force_def marked_cong)
next
  fix y es cfg and ss :: "'s locl_subsystem"
  show "speed_in_force P y (es @ speed_trace P y (configured cfg ss)) (configured cfg ss)"
    unfolding speed_in_force_def by (intro conjI exI [of _ es] exI [of _ "[]"]) (simp_all add: configured_speed)
next
  fix y es and ss :: "'s locl_subsystem"
  assume "speed ss = fand_choose_speed ss"
  then show "speed_in_force P y (es @ speed_trace P y ss) ss"
    unfolding speed_in_force_def by (intro conjI exI [of _ es] exI [of _ "[]"]) simp_all
qed

interpretation description: block_property P "factors_described P"
  for P :: "('s, 'y, 'h) platform"
  by unfold_locales (simp_all add: factors_described_def yaml_view_def configured_def Let_def)

section \<open>The control law\<close>

text \<open>What a row of the Subsystem table asks for: the highest level of its sensors, at least slow; or
  the configured override, unless the sensors ask for max.\<close>

definition control_law :: "ovsrec_subsystem \<Rightarrow> fanspeed" where
  "control_law row =
     (let wanted = Max (insert FAND_SPEED_SLOW
            ((\<lambda>t. fan_speed_string_to_enum (ts_fan_state t)) ` set (os_temp_sensors row)));
          override = fan_speed_string_to_enum (os_other_config row ''fan_speed_override'')
      in if override = FAND_SPEED_NONE \<or> wanted = FAND_SPEED_MAX then wanted else override)"

lemma follows_control_law:
  assumes "follows cfg ss"
  shows "speed ss = control_law cfg"
proof -
  from assms have eq: "configured cfg ss = ss" by (simp add: follows_def)
  have wanted: "fan_speed ss = highest_speed (os_temp_sensors cfg)"
    and ovr: "fan_speed_override ss = fan_speed_string_to_enum (os_other_config cfg ''fan_speed_override'')"
    using configured_simps(5,6) [of cfg ss] by (simp_all add: eq)
  have "FAND_SPEED_SLOW \<le> highest_speed (os_temp_sensors cfg)" by (simp add: highest_speed_Max)
  then have "highest_speed (os_temp_sensors cfg) \<noteq> FAND_SPEED_NONE"
    by (auto simp: less_eq_fanspeed_def)
  then show ?thesis
    using configured_speed [of cfg ss]
    by (simp add: eq fand_choose_speed_def wanted ovr control_law_def highest_speed_Max [symmetric] Let_def)
qed

section \<open>The abstract controller\<close>

datatype controller = Control nat "string \<rightharpoonup> fanspeed" | Stopped | Failed fault

text \<open>
  What a turn shows of the environment: whether the daemon has the lock, the sequence number of the
  replica, what its rows ask for, the names of the rows whose description can be loaded, and whether an
  exit command is served.
\<close>

type_synonym turn = "bool \<times> nat \<times> (string \<times> fanspeed) list \<times> string set \<times> bool"

text \<open>
  With the lock and a new sequence number the controller takes over the levels that the rows ask for,
  for a set of subsystems that contains those it already controls and those that can be loaded;
  otherwise the levels stay.
\<close>

inductive ctl_step :: "controller \<Rightarrow> turn \<Rightarrow> controller \<Rightarrow> bool" where
  keep: "\<not> lock \<or> n' = n \<Longrightarrow> ctl_step (Control n m) (lock, n', rows, ok, False) (Control n m)"
| follow: "n' \<noteq> n \<Longrightarrow> dom m \<union> ok \<subseteq> D \<Longrightarrow>
    ctl_step (Control n m) (True, n', rows, ok, False) (Control n' (map_of rows |` D))"
| stop: "ctl_step (Control n m) (lock, n', rows, ok, True) Stopped"
| fail: "e \<in> {SignedOverflow, NullDeref} \<Longrightarrow> ctl_step (Control n m) (True, n', rows, ok, ex) (Failed e)"

inductive_cases ctl_stepE: "ctl_step c (lock, n', rows, ok, ex) c'"

definition ctl_init :: "controller \<Rightarrow> bool" where
  "ctl_init c \<longleftrightarrow> (\<exists>n. c = Control n Map.empty)"

text \<open>
  An environment in which the sequence number determines what the rows ask for: then the controller's
  levels always are among those of its sequence number.
\<close>

definition answers :: "(nat \<Rightarrow> (string \<times> fanspeed) list) \<Rightarrow> turn \<Rightarrow> bool" where
  "answers \<rho> = (\<lambda>(lock, n, rows, ok, ex). lock \<longrightarrow> rows = \<rho> n)"

definition obeys :: "(nat \<Rightarrow> (string \<times> fanspeed) list) \<Rightarrow> controller \<Rightarrow> bool" where
  "obeys \<rho> c = (case c of Control n m \<Rightarrow> m \<subseteq>\<^sub>m map_of (\<rho> n) | _ \<Rightarrow> True)"

interpretation controller: invariant_system ctl_init "restrict (answers \<rho>) ctl_step" "obeys \<rho>"
  for \<rho> :: "nat \<Rightarrow> (string \<times> fanspeed) list"
proof
  fix c assume "ctl_init c"
  then show "obeys \<rho> c" by (auto simp: ctl_init_def obeys_def)
next
  fix c l c' assume "obeys \<rho> c" "restrict (answers \<rho>) ctl_step c l c'"
  then show "obeys \<rho> c'"
    by (cases l) (auto simp: answers_def obeys_def map_le_def restrict_def elim!: ctl_stepE)
qed

section \<open>The levels of the daemon\<close>

definition levels :: "('s, 'y, 'h) platform \<Rightarrow> ('s, 'y, 'h) fand \<Rightarrow> string \<rightharpoonup> fanspeed" where
  "levels P st n =
     Option.bind (shash_find P (subsystem_data st) n) (\<lambda>nd.
     Option.bind (subsys_mem st (snd nd)) (\<lambda>ss. if valid ss then Some (speed ss) else None))"

lemma levels_Some_iff:
  assumes P: "shash_ok P" and inv: "fand_inv P st"
  shows "levels P st n = Some s \<longleftrightarrow>
    (\<exists>a ss. subsys_mem st a = Some ss \<and> ls_name ss = n \<and> valid ss \<and> speed ss = s)"
proof
  assume "levels P st n = Some s"
  then obtain nd ss where nd: "shash_find P (subsystem_data st) n = Some nd"
    and ss: "subsys_mem st (snd nd) = Some ss" "valid ss" "speed ss = s"
    by (auto simp: levels_def bind_eq_Some_conv split: if_splits)
  from find_Some [OF P nd] inv_node_subsys [OF inv, of n "snd nd"] ss(1) have "ls_name ss = n"
    by (cases nd) auto
  with ss show "\<exists>a ss. subsys_mem st a = Some ss \<and> ls_name ss = n \<and> valid ss \<and> speed ss = s" by blast
next
  assume "\<exists>a ss. subsys_mem st a = Some ss \<and> ls_name ss = n \<and> valid ss \<and> speed ss = s"
  then obtain a ss where ss: "subsys_mem st a = Some ss" "ls_name ss = n" "valid ss" "speed ss = s" by blast
  from inv_subsys_node [OF inv ss(1)] inv have "shash_find P (subsystem_data st) n = Some (n, a)"
    by (intro find_unique [OF P]) (auto simp: ss(2) fand_inv_def subsystems_ok_def)
  with ss show "levels P st n = Some s" by (simp add: levels_def)
qed

lemma levels_cong:
  "subsystem_data st' = subsystem_data st \<Longrightarrow> subsys_mem st' = subsys_mem st \<Longrightarrow> levels P st' = levels P st"
  by (simp add: levels_def fun_eq_iff)

text \<open>Between turns no invalid subsystem is left, as long as the names of the rows are unique.\<close>

definition all_valid :: "('s, 'y, 'h) fand \<Rightarrow> bool" where
  "all_valid st \<longleftrightarrow> (\<forall>a ss. subsys_mem st a = Some ss \<longrightarrow> valid ss)"

lemma reconfigure_all_valid:
  assumes P: "platform_ok P" and inv: "fand_inv P st" and all: "all_valid st"
    and dist: "distinct (map os_name (idl_subsystems (idl st)))" and run: "fand_reconfigure P st = Inr st'"
  shows "all_valid st'"
proof (cases "idl_get_seqno (idl st) = idl_seqno st")
  case True
  with run have "st' = st" by (simp add: fand_reconfigure_def)
  with all show ?thesis by simp
next
  case False
  have "shash_ok P" "yaml_ok P" "fan_names_ok P" using P by (simp_all add: platform_ok_def)
  from fand_reconfigure_changed [OF this inv dist False] run have "reconfigured P st st'" by simp
  then show ?thesis unfolding reconfigured_def all_valid_def by blast
qed

lemma fand_run_all_valid:
  assumes P: "platform_ok P" and inv: "fand_inv P st" and all: "all_valid st"
    and dist: "distinct (map os_name (idl_subsystems i))" and run: "fand_run P i st = Inr st'"
  shows "all_valid st'"
proof (cases "locked i")
  case False
  with run all show ?thesis by (auto simp: fand_run_unlocked all_valid_def)
next
  case True
  let ?st = "st\<lparr>idl := i\<rparr>"
  have P': "shash_ok P" "yaml_ok P" "fan_names_ok P" using P by (simp_all add: platform_ok_def)
  have pre: "fand_inv P ?st" "all_valid ?st" "distinct (map os_name (idl_subsystems (idl ?st)))"
    using inv all dist by (simp_all add: all_valid_def)
  from run True obtain st1 st2 where 1: "fand_reconfigure P ?st = Inr st1" and 2: "fand_read_status P st1 = Inr st2"
    and st': "st' = log_io DaemonizeComplete st2"
    by (auto simp: fand_run_locked and_then_Inr_iff)
  from post_total [OF fand_reconfigure_inv [OF P' pre(1)]] 1 have "fand_inv P st1" by auto
  from fand_read_status_post [OF P'(1,2) this] 2 have "status_read P st1 st2" by simp
  with reconfigure_all_valid [OF P pre 1] show ?thesis by (simp add: all_valid_def status_read_def st')
qed

lemma reconfigured_levels:
  assumes P: "shash_ok P" and inv: "fand_inv P st" and all: "all_valid st" and r: "reconfigured P st st'"
    and dist: "distinct (map os_name (idl_subsystems (idl st)))"
  shows "\<exists>D. dom (levels P st) \<union> os_name ` {row \<in> set (idl_subsystems (idl st)). loadable P row} \<subseteq> D \<and>
    levels P st' = map_of (map (\<lambda>row. (os_name row, control_law row)) (idl_subsystems (idl st))) |` D"
proof (intro exI conjI)
  let ?rows = "idl_subsystems (idl st)"
  let ?asked = "map_of (map (\<lambda>row. (os_name row, control_law row)) ?rows)"
  let ?load = "os_name ` {row \<in> set ?rows. loadable P row}"
  let ?D = "dom (levels P st) \<union> dom (levels P st')"
  have inv': "fand_inv P st'" using r by (simp add: reconfigured_def)
  note iff = levels_Some_iff [OF P inv] and iff' = levels_Some_iff [OF P inv']
  have asked: "?asked n = Some s" if new: "levels P st' n = Some s" for n s
  proof -
    from new obtain a ss where ss: "subsys_mem st' a = Some ss" "ls_name ss = n" "speed ss = s"
      by (auto simp: iff')
    with r obtain cfg where cfg: "cfg \<in> set ?rows" "follows cfg ss" unfolding reconfigured_def by blast
    then have "n = os_name cfg" "s = control_law cfg"
      using ss(2,3) follows_control_law [OF cfg(2)] by (auto simp: follows_def)
    with cfg(1) dist show ?thesis by (intro map_of_is_SomeI) (auto simp: comp_def)
  qed
  have unknown: "?asked n = None" if old: "levels P st n \<noteq> None" and new: "levels P st' n = None" for n
  proof (rule ccontr)
    assume "?asked n \<noteq> None"
    then have row: "n \<in> os_name ` set ?rows" by (auto simp: map_of_eq_None_iff comp_def image_iff)
    from old obtain a ss where "subsys_mem st a = Some ss" "ls_name ss = n" "valid ss" by (auto simp: iff)
    with row r obtain ss' where "subsys_mem st' a = Some ss'" "ls_name ss' = n" "valid ss'"
      unfolding reconfigured_def by metis
    then have "levels P st' n = Some (speed ss')" by (auto simp: iff')
    with new show False by simp
  qed
  have "?load \<subseteq> dom (levels P st')"
  proof
    fix n assume "n \<in> ?load"
    then obtain row where row: "row \<in> set ?rows" "loadable P row" "n = os_name row" by blast
    with r all obtain a ss where "subsys_mem st' a = Some ss" "ls_name ss = n" "valid ss"
      unfolding reconfigured_def all_valid_def by metis
    then have "levels P st' n = Some (speed ss)" by (auto simp: iff')
    then show "n \<in> dom (levels P st')" by blast
  qed
  then show "dom (levels P st) \<union> ?load \<subseteq> ?D" by blast
  show "levels P st' = ?asked |` ?D"
  proof
    fix n
    show "levels P st' n = (?asked |` ?D) n"
      using asked [of n] unknown [of n] by (cases "levels P st' n") (auto simp: restrict_map_def dom_def)
  qed
qed

section \<open>The refinement\<close>

text \<open>The environment observed.\<close>

definition rows_turn :: "('s, 'y, 'h) platform \<Rightarrow> ovsdb_idl \<Rightarrow> bool \<Rightarrow> turn" where
  "rows_turn P i ex = (locked i, idl_get_seqno i, map (\<lambda>row. (os_name row, control_law row)) (idl_subsystems i),
     os_name ` {row \<in> set (idl_subsystems i). loadable P row}, ex)"

definition turn_of :: "('s, 'y, 'h) platform \<Rightarrow>
    ovsdb_idl \<times> unixctl_command list \<times> string option list \<times> wake list \<Rightarrow> turn" where
  "turn_of P = (\<lambda>(i, cmds, replies, wakes). rows_turn P i (ExitCmd \<in> set cmds))"

text \<open>The names of the Subsystem table are unique, as its schema has them.\<close>

definition unique_names :: "ovsdb_idl \<times> unixctl_command list \<times> string option list \<times> wake list \<Rightarrow> bool" where
  "unique_names = (\<lambda>(i, cmds, replies, wakes). distinct (map os_name (idl_subsystems i)))"

definition controller_of :: "('s, 'y, 'h) platform \<Rightarrow> ('s, 'y, 'h) fand process \<Rightarrow> controller" where
  "controller_of P p = (case p of
     Running st \<Rightarrow> Control (idl_seqno st) (levels P st) | Exited \<Rightarrow> Stopped | Crashed e \<Rightarrow> Failed e)"

lemma fand_run_controls:
  assumes P: "platform_ok P" and inv: "daemon_inv P st" and all: "all_valid st"
    and dist: "distinct (map os_name (idl_subsystems i))" and run: "fand_run P i st = Inr st'"
  shows "ctl_step (Control (idl_seqno st) (levels P st)) (rows_turn P i False)
    (Control (idl_seqno st') (levels P st'))"
proof (cases "locked i")
  case False
  with run have st': "st' = st\<lparr>idl := i\<rparr>" by (simp add: fand_run_unlocked)
  with False levels_cong [of st' st P] show ?thesis by (simp add: rows_turn_def ctl_step.keep)
next
  case True
  let ?st = "st\<lparr>idl := i\<rparr>"
  have P': "shash_ok P" "yaml_ok P" "fan_names_ok P" using P by (simp_all add: platform_ok_def)
  have inv': "fand_inv P ?st" using inv by (simp add: daemon_inv_def)
  have same: "levels P ?st = levels P st" by (rule levels_cong) simp_all
  from run True obtain st1 st2 where 1: "fand_reconfigure P ?st = Inr st1" and 2: "fand_read_status P st1 = Inr st2"
    and st': "st' = log_io DaemonizeComplete st2"
    by (auto simp: fand_run_locked and_then_Inr_iff)
  from post_total [OF fand_reconfigure_inv [OF P' inv']] 1 have "fand_inv P st1" by auto
  from fand_read_status_post [OF P'(1,2) this] 2 have read: "status_read P st1 st2" by simp
  then have "levels P st2 = levels P st1" by (intro levels_cong) (simp_all add: status_read_def same_links_def)
  moreover have "levels P st' = levels P st2" by (rule levels_cong) (simp_all add: st' log_io_def)
  ultimately have lv: "levels P st' = levels P st1" "idl_seqno st' = idl_seqno st1"
    using read by (simp_all add: st' log_io_def status_read_def)
  show ?thesis
  proof (cases "idl_get_seqno i = idl_seqno st")
    case eq: True
    with 1 have "st1 = ?st" by (simp add: fand_reconfigure_def)
    with lv same eq show ?thesis by (simp add: rows_turn_def ctl_step.keep)
  next
    case neq: False
    with dist have "distinct (map os_name (idl_subsystems (idl ?st)))" "idl_get_seqno (idl ?st) \<noteq> idl_seqno ?st"
      by simp_all
    from post_total [OF fand_reconfigure_changed [OF P' inv' this]] 1 have r: "reconfigured P ?st st1" by auto
    have "all_valid ?st" using all by (simp add: all_valid_def)
    from reconfigured_levels [OF P'(1) inv' this r] dist same obtain D
      where "dom (levels P st) \<union> os_name ` {row \<in> set (idl_subsystems i). loadable P row} \<subseteq> D"
      "levels P st1 = map_of (map (\<lambda>row. (os_name row, control_law row)) (idl_subsystems i)) |` D" by auto
    with neq True lv r show ?thesis by (simp add: rows_turn_def reconfigured_def ctl_step.follow)
  qed
qed

definition valid_process :: "('s, 'y, 'h) platform \<Rightarrow> ('s, 'y, 'h) fand process \<Rightarrow> bool" where
  "valid_process P p \<longleftrightarrow> process_ok P p \<and> (\<forall>st. p = Running st \<longrightarrow> all_valid st)"

interpretation control: refinement "process_start P" "restrict unique_names (main_step P)" "valid_process P"
    ctl_init ctl_step "controller_of P" "turn_of P"
  for P :: "('s, 'y, 'h) platform"
proof
  fix p assume "process_start P p"
  with daemon_system.init_inv [OF this] show "valid_process P p"
    by (auto simp: valid_process_def process_start_def all_valid_def fand_init_def
        init_subsystems_def program_start_def no_blocks_def)
next
  fix p l p' assume v: "valid_process P p" and "restrict unique_names (main_step P) p l p'"
  then have step: "main_step P p l p'" and u: "unique_names l" by (auto dest: restrictD)
  from v have "process_ok P p" by (simp add: valid_process_def)
  from step v u daemon_system.step_inv [OF this step] show "valid_process P p'"
    by cases (auto simp: valid_process_def process_ok_def daemon_inv_def main_turn_def and_then_Inr_iff
        unique_names_def intro: fand_run_all_valid)
next
  fix p assume start: "process_start P p"
  then obtain y i st where p: "p = Running (fand_init P y i st)" and st: "program_start st"
    by (auto simp: process_start_def)
  have "subsys_mem (fand_init P y i st) = Map.empty"
    using st by (simp add: fand_init_def init_subsystems_def program_start_def no_blocks_def)
  then have "levels P (fand_init P y i st) = Map.empty"
    by (simp add: levels_def fun_eq_iff split: bind_split)
  then show "ctl_init (controller_of P p)" by (simp add: p controller_of_def ctl_init_def)
next
  fix p l p' assume v: "valid_process P p" and "restrict unique_names (main_step P) p l p'"
  then have step: "main_step P p l p'" and u: "unique_names l" by (auto dest: restrictD)
  from v have ok: "process_ok P p" by (simp add: valid_process_def)
  from step show "ctl_step (controller_of P p) (turn_of P l) (controller_of P p')"
  proof cases
    case (turn i cmds st st' replies wakes)
    with ok have inv: "platform_ok P" "daemon_inv P st" by (simp_all add: process_ok_def)
    with turn main_turn_post [OF inv, of cmds i] have "ExitCmd \<notin> set cmds" by auto
    moreover from turn have "fand_run P i st = Inr st'" by (auto simp: main_turn_def and_then_Inr_iff)
    ultimately show ?thesis using turn u v fand_run_controls [OF inv, of i st']
      by (simp add: controller_of_def turn_of_def unique_names_def valid_process_def)
  next
    case (turn_exit i cmds st st' replies wakes)
    with ok have inv: "platform_ok P" "daemon_inv P st" by (simp_all add: process_ok_def)
    with turn_exit main_turn_post [OF inv, of cmds i] have "ExitCmd \<in> set cmds" by auto
    with turn_exit show ?thesis by (simp add: controller_of_def turn_of_def rows_turn_def ctl_step.stop)
  next
    case (turn_crash i cmds st e)
    with ok have inv: "platform_ok P" "daemon_inv P st" by (simp_all add: process_ok_def)
    have "locked i"
    proof (rule ccontr)
      assume "\<not> locked i"
      with inv(2) unixctl_server_run_total [of P "st\<lparr>idl := i\<rparr>" cmds False] have "\<exists>x. main_turn P i cmds st = Inr x"
        by (auto simp: main_turn_def fand_run_unlocked daemon_inv_def)
      with turn_crash show False by simp
    qed
    with turn_crash main_turn_post [OF inv, of cmds i] show ?thesis
      by (simp add: controller_of_def turn_of_def rows_turn_def ctl_step.fail)
  qed
qed

section \<open>Properties\<close>

text \<open>
  C3: the daemon is the controller. Whatever the environment does, as long as the names of the Subsystem
  table are unique, every run of the main loop is a run of the abstract controller on what the turns
  show. With the lock and a new sequence number it controls only subsystems of the table, each at the
  level of the control law, among them all that it controlled before and all that can be loaded; without
  the lock or without a change no level changes; it stops exactly on command.
\<close>

theorem daemon_refines_controller:
  assumes "runs (process_start P) (restrict unique_names (main_step P)) ls p"
  shows "runs ctl_init ctl_step (map (turn_of P) ls) (controller_of P p)"
  by (rule control.runs_refine [OF assms])

text \<open>
  C2: what the fans do is what the database asks for. Let the sequence number of the replica determine
  what its rows ask for, in every turn that the daemon has the lock. Then in every state between two
  turns each valid subsystem has the level that the rows of the last adopted sequence number ask for,
  and the last speed command that its hardware received is the one of that level: the byte of the level
  to every speed control, after which only LEDs of the subsystem have been written.
\<close>

theorem fans_follow_database:
  assumes "reach (process_start P)
      (restrict (\<lambda>l. answers \<rho> (turn_of P l)) (restrict unique_names (main_step P))) (Running st)"
    and "subsys_mem st a = Some ss" "valid ss"
  shows "map_of (\<rho> (idl_seqno st)) (ls_name ss) = Some (speed ss) \<and>
    (\<exists>info label v pre after.
       yaml_get_fan_info P (yaml_handle st) (ls_name ss) = Some info \<and>
       fand_speed_setting info (speed ss) = (label, v) \<and>
       io st = pre @ [FanSpeedEvent (ls_name ss) label v] @
         speed_writes P (yaml_handle st) info (ls_name ss) v @ after \<and>
       (\<forall>e \<in> set after. leaves_speed P (yaml_handle st) (ls_name ss) e))"
proof
  have r: "reach (process_start P) (main_step P) (Running st)"
    by (rule reach_mono [OF assms(1)]) (auto dest: restrictD)
  from daemon_system.reach_inv [OF r] have P: "shash_ok P" and inv: "fand_inv P st"
    by (simp_all add: process_ok_def platform_ok_def daemon_inv_def)
  have lv: "levels P st (ls_name ss) = Some (speed ss)"
    using assms(2,3) by (auto simp: levels_Some_iff [OF P inv])
  from controller.reach_inv [OF control.reach_refine [OF assms(1)]]
  have "levels P st \<subseteq>\<^sub>m map_of (\<rho> (idl_seqno st))" by (simp add: obeys_def controller_of_def)
  with lv show "map_of (\<rho> (idl_seqno st)) (ls_name ss) = Some (speed ss)"
    unfolding map_le_def by (metis domI)
  from force.reach_each [OF r] assms(2,3) have "speed_in_force P (yaml_handle st) (io st) ss"
    by (simp add: each_valid_def)
  then obtain pre after where sp: "speed ss = fand_choose_speed ss"
    and io: "io st = pre @ speed_trace P (yaml_handle st) ss @ after"
      "\<forall>e \<in> set after. leaves_speed P (yaml_handle st) (ls_name ss) e"
    unfolding speed_in_force_def by blast
  from description.reach_each [OF r] assms(2,3) obtain info
    where info: "yaml_get_fan_info P (yaml_handle st) (ls_name ss) = Some info"
    by (auto simp: each_valid_def factors_described_def)
  obtain label v where set: "fand_speed_setting info (speed ss) = (label, v)" by fastforce
  with info sp have "speed_trace P (yaml_handle st) ss =
      [FanSpeedEvent (ls_name ss) label v] @ speed_writes P (yaml_handle st) info (ls_name ss) v"
    by (simp add: speed_trace_def)
  with info set io show "\<exists>info label v pre after.
       yaml_get_fan_info P (yaml_handle st) (ls_name ss) = Some info \<and>
       fand_speed_setting info (speed ss) = (label, v) \<and>
       io st = pre @ [FanSpeedEvent (ls_name ss) label v] @
         speed_writes P (yaml_handle st) info (ls_name ss) v @ after \<and>
       (\<forall>e \<in> set after. leaves_speed P (yaml_handle st) (ls_name ss) e)"
    by (intro exI [of _ info] exI [of _ label] exI [of _ v] exI [of _ pre] exI [of _ after]) simp
qed

end
