(* ===== verification/Fand_Bounds.thy ===== *)
theory Fand_Bounds
  imports Fand_Control
begin

text \<open>
  The daemon on hardware whose registers hold bytes and whose descriptions have scaling factors of a
  sensible size: no turn overflows, so the only fault left is a Fan row that is not the daemon's.
\<close>

section \<open>The hardware\<close>

definition byte_registers :: "('s, 'y, 'h) platform \<Rightarrow> bool" where
  "byte_registers P \<longleftrightarrow> (\<forall>y h n op old h' v. i2c_reg_read P y h n op old = (h', 0, v) \<longrightarrow> unat v < 256)"

definition factors_ok :: "('s, 'y, 'h) platform \<Rightarrow> bool" where
  "factors_ok P \<longleftrightarrow> (\<forall>y n info. yaml_get_fan_info P y n = Some info \<longrightarrow>
     0 \<le> sint (fan_speed_multiplier info) \<and> sint (fan_speed_multiplier info) \<le> 32768 \<and>
     0 \<le> sint (fan_speed_numerator info))"

definition scalable :: "'s locl_subsystem \<Rightarrow> bool" where
  "scalable ss \<longleftrightarrow> 0 \<le> sint (multiplier ss) \<and> sint (multiplier ss) \<le> 32768 \<and> 0 \<le> sint (numerator ss)"

section \<open>Reading one fan\<close>

lemma bus_read_byte: "byte_registers P \<Longrightarrow> bus_read P n op old st = (0, v, st') \<Longrightarrow> unat v < 256"
  by (auto simp: byte_registers_def bus_read_def split: prod.splits)

lemma sint_small: "unat (w :: s32) < 2 ^ 16 \<Longrightarrow> 0 \<le> sint w \<and> sint w < 2 ^ 16"
proof -
  assume w: "unat w < 2 ^ 16"
  then have "sint w = int (unat w)" by (intro sint_eq_int_unat) simp
  moreover from w have "unat w < 65536" by simp
  then have "int (unat w) < 65536" by linarith
  ultimately show ?thesis by simp
qed

lemma fand_read_rpm_range:
  assumes P: "byte_registers P"
  shows "0 \<le> sint (fst (fand_read_rpm P n fan st)) \<and> sint (fst (fand_read_rpm P n fan st)) < 2 ^ 16"
proof (rule sint_small)
  obtain rc low st1 where 1: "bus_read P n (yf_fan_speed fan) 0 st = (rc, low, st1)"
    by (cases "bus_read P n (yf_fan_speed fan) 0 st")
  show "unat (fst (fand_read_rpm P n fan st)) < 2 ^ 16"
  proof (cases "rc = 0")
    case True
    with 1 P have low: "unat low < 256" by (auto dest: bus_read_byte)
    show ?thesis
    proof (cases "yf_fan_speed_msb fan")
      case None
      with 1 True low show ?thesis by (simp add: fand_read_rpm_def)
    next
      case (Some msb)
      obtain rc' high st2 where 2: "bus_read P n (Some msb) low st1 = (rc', high, st2)"
        by (cases "bus_read P n (Some msb) low st1")
      have "unat (low + push_bit 8 high) < 2 ^ 16" if "rc' = 0"
      proof -
        from 2 P that have high: "unat high < 256" by (auto dest: bus_read_byte)
        have "unat (low + push_bit 8 high) = unat (low + 256 * high)" by (simp add: push_bit_eq_mult mult.commute)
        also have "\<dots> = (unat low + (256 * unat high) mod 2 ^ 32) mod 2 ^ 32" by (simp add: unat_word_ariths)
        also have "\<dots> \<le> unat low + (256 * unat high) mod 2 ^ 32" by (rule mod_less_eq_dividend)
        also have "\<dots> \<le> unat low + 256 * unat high" by simp
        finally show ?thesis using low high by simp
      qed
      with 1 2 True Some show ?thesis by (simp add: fand_read_rpm_def)
    qed
  qed (use 1 in \<open>simp add: fand_read_rpm_def\<close>)
qed

text \<open>The only part of \<open>fand_read_fan_status\<close> that can overflow is the scaling.\<close>

lemma find_fan_fru_no_overflow: "find_fan_fru get a is \<noteq> Inl SignedOverflow"
  by (induction "is") (auto simp: and_then_Inl_iff deref_Inl_iff)

lemma fand_read_fan_status_overflow:
  assumes P: "byte_registers P" and f: "fan_mem st p = Some f" "subsys_mem st (subsystem f) = Some ss"
    and sc: "scalable ss"
  shows "fand_read_fan_status P p st \<noteq> Inl SignedOverflow"
proof
  assume "fand_read_fan_status P p st = Inl SignedOverflow"
  moreover have "fand_read_direction P n g s \<noteq> Inl SignedOverflow" for n g s
    using find_fan_fru_no_overflow
    by (auto simp: fand_read_direction_def fan_fru_get_def and_then_Inl_iff deref_Inl_iff fand_read_fan_fru_direction_def
        Let_def split: option.splits prod.splits)
  moreover have "fan_fru_get P n g s \<noteq> Inl SignedOverflow" for n g s
    by (simp add: fan_fru_get_def find_fan_fru_no_overflow)
  moreover have "fand_read_present P n fru s \<noteq> Inl SignedOverflow" for n fru s
    by (auto simp: fand_read_present_def and_then_Inl_iff deref_Inl_iff Let_def split: option.splits prod.splits)
  moreover have "fand_read_present_fan P p ss g s \<noteq> Inl SignedOverflow" for g s
  proof -
    obtain raw s1 where raw: "fand_read_rpm P (ls_name ss) (yaml_fan g) s = (raw, s1)" by fastforce
    with fand_read_rpm_range [OF P, of "ls_name ss" "yaml_fan g" s] rpm_scale_in_range [of raw ss] sc
    obtain r where "fan_rpm_scale ss raw = Inr r" by (auto simp: scalable_def)
    with raw show ?thesis by (simp add: fand_read_present_fan_def Let_def split: prod.split)
  qed
  ultimately show False using f
    by (auto simp: fand_read_fan_status_def get_fan_def get_subsys_def and_then_Inl_iff deref_Inl_iff Let_def
        split: prod.splits if_splits)
qed

section \<open>A turn\<close>

lemma refresh_fan_bounded:
  assumes y: "yaml_ok P" and P: "byte_registers P" and d: "refresh_done P st0 D st"
    and ss: "subsys_mem st a = Some ss" "scalable ss" and nd: "(n, p) \<in> set (shash_nodes P (subsystem_fans ss))"
  shows "post {} (refresh_done P st0 (D \<union> {p})) (refresh_fan P a (n, p) st)"
proof -
  have "fand_inv P st" using d by (simp add: refresh_done_def)
  from inv_node_fan [OF this ss(1) nd] obtain f where f: "fan_mem st p = Some f" "subsystem f = a" by blast
  have "refresh_fan P a (n, p) st \<noteq> Inl SignedOverflow"
    using f ss fand_read_fan_status_overflow [OF P, of "put_fan p (f\<lparr>lf_speed := speed ss\<rparr>) st" p]
    by (simp add: refresh_fan_def get_subsys_def get_fan_def)
  with refresh_fan_post [OF y d ss(1) nd] show ?thesis
    by (cases "refresh_fan P a (n, p) st") simp_all
qed

lemma refresh_all_bounded:
  assumes y: "yaml_ok P" and P: "byte_registers P" and inv: "fand_inv P st"
    and sc: "\<forall>a ss. subsys_mem st a = Some ss \<longrightarrow> scalable ss"
  shows "post {} (\<lambda>s. \<exists>D. refresh_done P st D s) (foreach (refresh_subsystem P) (shash_nodes P (subsystem_data st)) st)"
    (is "post {} ?I _")
proof (rule post_foreach)
  have "refresh_done P st {} st" using inv by (simp add: refresh_done_def)
  then show "?I st" ..
next
  fix x s assume x: "x \<in> set (shash_nodes P (subsystem_data st))" and "?I s"
  then obtain D where d: "refresh_done P st D s" by blast
  from x inv_node_subsys [OF inv, of "fst x" "snd x"] obtain ss where "subsys_mem st (snd x) = Some ss" by auto
  with sc d have ss: "subsys_mem s (snd x) = Some ss" "scalable ss" and st: "subsys_mem st (snd x) = Some ss"
    by (auto simp: refresh_done_def)
  have "post {} ?I (foreach (refresh_fan P (snd x)) (shash_nodes P (subsystem_fans ss)) s)"
  proof (rule post_foreach)
    show "?I s" using d ..
    fix z r assume z: "z \<in> set (shash_nodes P (subsystem_fans ss))" and "?I r"
    then obtain E where e: "refresh_done P st E r" by blast
    with st have "subsys_mem r (snd x) = Some ss" by (simp add: refresh_done_def)
    with refresh_fan_bounded [OF y P e this ss(2), of "fst z" "snd z"] z show "post {} ?I (refresh_fan P (snd x) z r)"
      by (auto elim: post_mono)
  qed
  with ss show "post {} ?I (refresh_subsystem P x s)" by (simp add: refresh_subsystem_def get_subsys_def)
qed

lemma sync_fan_rows_no_overflow: "sync_fan_rows P st rows change \<noteq> Inl SignedOverflow"
proof (induction rows arbitrary: change)
  case (Cons r rows)
  have "sync_fan_row P st r c \<noteq> Inl SignedOverflow" for c
    by (auto simp: sync_fan_row_def get_fan_def and_then_Inl_iff deref_Inl_iff Let_def)
  with Cons.IH show ?case by (auto simp: and_then_Inl_iff split: prod.splits)
qed simp

lemma fand_read_status_bounded:
  assumes y: "yaml_ok P" and P: "byte_registers P" and inv: "fand_inv P st"
    and sc: "\<forall>a ss. subsys_mem st a = Some ss \<longrightarrow> scalable ss"
  shows "fand_read_status P st \<noteq> Inl SignedOverflow"
proof -
  from post_total [OF refresh_all_bounded [OF assms]] obtain st1
    where "foreach (refresh_subsystem P) (shash_nodes P (subsystem_data st)) st = Inr st1" by blast
  with sync_fan_rows_no_overflow [of P st1 "idl_fans (idl st1)" False] show ?thesis
    by (auto simp: fand_read_status_def and_then_Inl_iff Let_def split: prod.splits)
qed

text \<open>Between turns every subsystem is valid, so its factors are those of its description.\<close>

definition all_scalable :: "('s, 'y, 'h) platform \<Rightarrow> ('s, 'y, 'h) fand \<Rightarrow> bool" where
  "all_scalable P st \<longleftrightarrow> each_valid (factors_described P) st \<and> all_valid st"

lemma all_scalableD: "factors_ok P \<Longrightarrow> all_scalable P st \<Longrightarrow> subsys_mem st a = Some ss \<Longrightarrow> scalable ss"
  unfolding all_scalable_def all_valid_def each_valid_def factors_described_def factors_ok_def scalable_def by metis

lemma fand_run_bounded:
  assumes P: "platform_ok P" "byte_registers P" "factors_ok P" and inv: "daemon_inv P st"
    and all: "all_scalable P st" and dist: "distinct (map os_name (idl_subsystems i))"
  shows "post {NullDeref} (all_scalable P) (fand_run P i st)"
proof (cases "locked i")
  case False
  with all show ?thesis by (auto simp: fand_run_unlocked all_scalable_def all_valid_def each_valid_def)
next
  case True
  let ?st = "st\<lparr>idl := i\<rparr>"
  have P': "shash_ok P" "yaml_ok P" "fan_names_ok P" using P by (simp_all add: platform_ok_def)
  have pre: "fand_inv P ?st" "each_valid (factors_described P) ?st" "all_valid ?st"
    "distinct (map os_name (idl_subsystems (idl ?st)))"
    using inv all dist by (auto simp: daemon_inv_def all_scalable_def all_valid_def each_valid_def)
  from post_total [OF description.fand_reconfigure_each [OF P' pre(1,2)]] obtain st1
    where 1: "fand_reconfigure P ?st = Inr st1" "fand_inv P st1" "each_valid (factors_described P) st1" by blast
  with reconfigure_all_valid [OF P(1) pre(1,3,4)] have all1: "all_scalable P st1" by (simp add: all_scalable_def)
  have "fand_read_status P st1 \<noteq> Inl SignedOverflow"
    by (rule fand_read_status_bounded [OF P'(2) P(2) 1(2)]) (use all_scalableD [OF P(3) all1] in blast)
  with fand_read_status_post [OF P'(1,2) 1(2)]
  have "post {NullDeref} (status_read P st1) (fand_read_status P st1)"
    by (cases "fand_read_status P st1") (auto split: if_splits)
  then have null: "post {NullDeref} (\<lambda>_. True) (fand_run P i st)"
    using True 1(1) by (cases "fand_read_status P st1") (auto simp: fand_run_locked)
  have "each_valid (factors_described P) st' \<and> all_valid st'" if run: "fand_run P i st = Inr st'" for st'
    using description.fand_run_each [OF P(1) _ _ run] fand_run_all_valid [OF P(1) _ _ dist run] inv all
    by (simp add: daemon_inv_def all_scalable_def)
  with null show ?thesis by (cases "fand_run P i st") (auto simp: all_scalable_def)
qed

definition bounded_process :: "('s, 'y, 'h) platform \<Rightarrow> ('s, 'y, 'h) fand process \<Rightarrow> bool" where
  "bounded_process P p \<longleftrightarrow> process_ok P p \<and> (byte_registers P \<and> factors_ok P \<longrightarrow> (case p of
     Running st \<Rightarrow> all_scalable P st | Exited \<Rightarrow> True | Crashed e \<Rightarrow> e = NullDeref))"

interpretation bounded: invariant_system "process_start P" "restrict unique_names (main_step P)" "bounded_process P"
  for P :: "('s, 'y, 'h) platform"
proof
  fix p assume start: "process_start P p"
  with daemon_system.init_inv [OF start] show "bounded_process P p"
    by (auto simp: bounded_process_def process_start_def all_scalable_def all_valid_def each_valid_def fand_init_def
        init_subsystems_def program_start_def no_blocks_def)
next
  fix p l p' assume b: "bounded_process P p" and "restrict unique_names (main_step P) p l p'"
  then have step: "main_step P p l p'" and u: "unique_names l" by (auto dest: restrictD)
  from b have ok: "process_ok P p" by (simp add: bounded_process_def)
  from step show "bounded_process P p'"
  proof cases
    case (turn i cmds st st' replies wakes)
    with ok b u fand_run_bounded [of P st i] daemon_system.step_inv [OF ok step] show ?thesis
      by (auto simp: bounded_process_def process_ok_def main_turn_def and_then_Inr_iff unique_names_def)
  next
    case (turn_exit i cmds st st' replies wakes)
    with daemon_system.step_inv [OF ok step] show ?thesis by (simp add: bounded_process_def)
  next
    case (turn_crash i cmds st e)
    have "e = NullDeref" if "byte_registers P" "factors_ok P"
    proof -
      from turn_crash(4) consider "fand_run P i st = Inl e"
        | s where "fand_run P i st = Inr s" "unixctl_server_run P s cmds False = Inl e"
        by (auto simp: main_turn_def and_then_Inl_iff split: prod.splits)
      then show ?thesis
      proof cases
        case 1
        with that ok b u turn_crash fand_run_bounded [of P st i] show ?thesis
          by (auto simp: bounded_process_def process_ok_def unique_names_def)
      next
        case 2
        with ok turn_crash fand_run_post [of P st i] have "fand_inv P s" by (simp add: process_ok_def daemon_inv_def)
        with unixctl_server_run_total [of P s cmds False] 2(2) show ?thesis by auto
      qed
    qed
    with turn_crash daemon_system.step_inv [OF ok step] show ?thesis by (simp add: bounded_process_def)
  qed
qed

section \<open>Properties\<close>

text \<open>
  C12: no overflow. On hardware whose speed registers hold bytes, with descriptions whose multiplier lies
  between 0 and 32768 and whose numerator is not negative, and with unique names in the Subsystem table,
  the daemon never overflows an \<open>int\<close>: the only way it can crash at all is by a NULL pointer.
\<close>

theorem no_overflow:
  assumes "byte_registers P" "factors_ok P"
    and "reach (process_start P) (restrict unique_names (main_step P)) (Crashed e)"
  shows "e = NullDeref"
  using bounded.reach_inv [OF assms(3)] assms(1,2) by (simp add: bounded_process_def)

end
