(* ===== verification/Fand_Stale.thy ===== *)
theory Fand_Stale
  imports Fand_Daemon
begin

text \<open>
  The Fan rows of a subsystem that is gone: a reconfiguration that adds no subsystem leaves the Fan table
  alone, so the status reading of the same turn meets rows that no fan of the daemon has the name of.
\<close>

section \<open>A reconfiguration without new subsystems\<close>

text \<open>Every row's name is the name of a block, valid or not.\<close>

definition names_known :: "ovsrec_subsystem list \<Rightarrow> ('s, 'y, 'h) fand \<Rightarrow> bool" where
  "names_known rows st \<longleftrightarrow> (\<forall>cfg \<in> set rows. \<exists>a ss. subsys_mem st a = Some ss \<and> ls_name ss = os_name cfg)"

text \<open>What only shrinks: the blocks, under their names, and the fans; the replica stays.\<close>

definition only_shrinks :: "('s, 'y, 'h) fand \<Rightarrow> ('s, 'y, 'h) fand \<Rightarrow> bool" where
  "only_shrinks st st' \<longleftrightarrow> idl st' = idl st \<and>
     (\<forall>p f. fan_mem st' p = Some f \<longrightarrow> fan_mem st p = Some f) \<and>
     (\<forall>a ss'. subsys_mem st' a = Some ss' \<longrightarrow> (\<exists>ss. subsys_mem st a = Some ss \<and> ls_name ss = ls_name ss'))"

lemma only_shrinks_refl [simp]: "only_shrinks st st"
  by (simp add: only_shrinks_def)

lemma only_shrinks_trans [trans]: "only_shrinks st st' \<Longrightarrow> only_shrinks st' st'' \<Longrightarrow> only_shrinks st st''"
  unfolding only_shrinks_def by metis

lemma reconfigure_known:
  assumes P: "shash_ok P" "yaml_ok P" and inv: "fand_inv P st" and known: "names_known rows st"
    and cfg: "cfg \<in> set rows"
  shows "post {} (\<lambda>s. fand_inv P s \<and> names_known rows s \<and> only_shrinks st s) (reconfigure_subsystem P cfg st)"
proof -
  from known cfg obtain a ss where ss: "subsys_mem st a = Some ss" "ls_name ss = os_name cfg"
    by (auto simp: names_known_def)
  show ?thesis
  proof (cases "valid ss")
    case False
    with inv known show ?thesis by (simp add: reconfigure_subsystem_def get_subsystem_known [OF P(1) inv ss])
  next
    case True
    let ?ss = "configured cfg ss"
    have inv1: "fand_inv P (put_subsys a ?ss st)"
      by (rule fand_inv_put_subsys [OF inv ss(1)]) (simp add: subsys_link_def)
    have "post {} (\<lambda>s. fand_inv P s \<and> names_known rows s \<and> only_shrinks st s) (configure_subsystem P cfg a st)"
    proof (rule post_mono [OF configure_subsystem_post [OF P(2) inv ss(1), of cfg]])
      fix s assume "bus_op (put_subsys a ?ss st) (speed_trace P (yaml_handle st) ?ss @ led_trace P ss st) s"
      then have b: "same_daemon (put_subsys a ?ss st) s" by (simp add: bus_op_def)
      have f: "subsys_mem s = (subsys_mem st)(a \<mapsto> ?ss)" "fan_mem s = fan_mem st" "idl s = idl st"
        using same_daemon_fields [OF b] by simp_all
      have "names_known rows s"
        unfolding names_known_def
      proof
        fix c assume "c \<in> set rows"
        with known obtain d sd where d: "subsys_mem st d = Some sd" "ls_name sd = os_name c"
          by (auto simp: names_known_def)
        show "\<exists>d sd. subsys_mem s d = Some sd \<and> ls_name sd = os_name c"
        proof (cases "d = a")
          case True
          with d ss(1) f(1) show ?thesis by (intro exI [of _ a] exI [of _ ?ss]) simp
        next
          case False
          with d f(1) show ?thesis by (intro exI [of _ d] exI [of _ sd]) simp
        qed
      qed
      moreover have "only_shrinks st s" using ss(1) by (auto simp: only_shrinks_def f)
      ultimately show "fand_inv P s \<and> names_known rows s \<and> only_shrinks st s"
        using inv1 b by (blast intro: fand_inv_links same_daemon_links)
    qed
    with True show ?thesis by (simp add: reconfigure_subsystem_def get_subsystem_known [OF P(1) inv ss])
  qed
qed

lemma fand_reconfigure_shrinks:
  assumes P: "shash_ok P" "yaml_ok P" and inv: "fand_inv P st" and known: "names_known (idl_subsystems (idl st)) st"
  shows "post {} (only_shrinks st) (fand_reconfigure P st)"
proof -
  let ?rows = "idl_subsystems (idl st)" and ?st0 = "st\<lparr>idl_seqno := idl_get_seqno (idl st)\<rparr>"
  let ?I = "\<lambda>s. fand_inv P s \<and> names_known ?rows s \<and> only_shrinks st s"
  have inv0: "fand_inv P ?st0" using inv by simp
  have "post {} (only_shrinks st) (and_then (fand_unmark_subsystems P ?st0) (\<lambda>st.
      and_then (foreach (reconfigure_subsystem P) (idl_subsystems (idl st)) st) (fand_remove_unmarked_subsystems P)))"
    using unmark_post [OF inv0]
  proof (rule post_and_then)
    fix st1 assume u: "unmarked ?st0 {} st1"
    then have s1: "only_shrinks st st1" and rows: "idl_subsystems (idl st1) = ?rows"
      by (auto simp: unmarked_def only_shrinks_def same_env_def)
    have "names_known ?rows st1"
      unfolding names_known_def
    proof
      fix c assume "c \<in> set ?rows"
      with known obtain d sd where "subsys_mem st d = Some sd" "ls_name sd = os_name c" by (auto simp: names_known_def)
      with u show "\<exists>d sd. subsys_mem st1 d = Some sd \<and> ls_name sd = os_name c"
        by (intro exI [of _ d] exI [of _ "sd\<lparr>marked := False\<rparr>"]) (simp add: unmarked_def)
    qed
    with s1 unmarked_start(2) [OF inv0 u] have "?I st1" by simp
    then have "post {} ?I (foreach (reconfigure_subsystem P) ?rows st1)"
    proof (rule post_foreach)
      fix c s assume c: "c \<in> set ?rows" and s: "?I s"
      then have "fand_inv P s" "names_known ?rows s" by simp_all
      from reconfigure_known [OF P this c] show "post {} ?I (reconfigure_subsystem P c s)"
        by (rule post_mono) (use s in \<open>blast intro: only_shrinks_trans\<close>)
    qed
    then have "post {} (only_shrinks st) (and_then (foreach (reconfigure_subsystem P) ?rows st1)
        (fand_remove_unmarked_subsystems P))"
    proof (rule post_and_then)
      fix st2 assume s: "?I st2"
      then have "fand_inv P st2" by simp
      from sweep_post [OF P(1) this] show "post {} (only_shrinks st) (fand_remove_unmarked_subsystems P st2)"
      proof (rule post_mono)
        fix st3 assume "swept P st2 [] st3"
        then have "only_shrinks st2 st3" by (auto simp: swept_def same_env_def only_shrinks_def)
        with s show "only_shrinks st st3" by (blast intro: only_shrinks_trans)
      qed
    qed
    then show "post {} (only_shrinks st) (and_then (foreach (reconfigure_subsystem P) (idl_subsystems (idl st1)) st1)
        (fand_remove_unmarked_subsystems P))" by (simp add: rows)
  qed
  then show ?thesis by (simp add: fand_reconfigure_def Let_def)
qed

text \<open>Names identify live fans.\<close>

lemma inv_fan_name_inject:
  assumes "fand_inv P st" "fan_mem st p = Some f" "fan_mem st q = Some g" "lf_name f = lf_name g"
  shows "p = q"
proof -
  have "(lf_name f, p) \<in> set (shash_nodes P (fan_data st))" "(lf_name f, q) \<in> set (shash_nodes P (fan_data st))"
    using assms by (auto simp: fand_inv_def fan_table_ok_def)
  moreover have "distinct (map fst (shash_nodes P (fan_data st)))"
    using assms(1) by (simp add: fand_inv_def fan_table_ok_def)
  ultimately show ?thesis by (rule_tac eq_key_imp_eq_value)
qed

section \<open>Properties\<close>

text \<open>
  C22: removing a subsystem. The code leaves it to the database to delete the Fan rows of a subsystem that
  is removed. If a fan's row is still there in the turn that no longer finds its subsystem, and no
  subsystem is new, that turn crashes: the reconfiguration frees the fan and leaves its row, and the
  status reading follows the NULL node of the row, unless the rpm of another fan overflows first.
\<close>

theorem removed_subsystem_crashes:
  assumes "platform_ok P" "daemon_inv P st" "locked i" "idl_get_seqno i \<noteq> idl_seqno st"
    and "distinct (map os_name (idl_subsystems i))" "names_known (idl_subsystems i) st"
    and "fan_mem st p = Some f" "subsys_mem st (subsystem f) = Some ss" "ls_name ss \<notin> os_name ` set (idl_subsystems i)"
    and "row \<in> set (idl_fans i)" "of_name row = lf_name f"
  shows "fand_run P i st = Inl NullDeref \<or> fand_run P i st = Inl SignedOverflow"
proof -
  let ?st = "st\<lparr>idl := i\<rparr>"
  have P: "shash_ok P" "yaml_ok P" "fan_names_ok P" using assms(1) by (simp_all add: platform_ok_def)
  have inv: "fand_inv P ?st" and inv0: "fand_inv P st" using assms(2) by (simp_all add: daemon_inv_def)
  have pre: "distinct (map os_name (idl_subsystems (idl ?st)))" "idl_get_seqno (idl ?st) \<noteq> idl_seqno ?st"
    "names_known (idl_subsystems (idl ?st)) ?st" using assms(4-6) by (simp_all add: names_known_def)
  from post_total [OF fand_reconfigure_changed [OF P inv pre(1,2)]] obtain st1
    where 1: "fand_reconfigure P ?st = Inr st1" and r: "reconfigured P ?st st1" by blast
  from fand_reconfigure_shrinks [OF P(1,2) inv pre(3)] 1 have sh: "only_shrinks ?st st1" by simp
  have inv1: "fand_inv P st1" using r by (simp add: reconfigured_def)
  have "\<not> rows_known P st1"
  proof
    assume "rows_known P st1"
    moreover have "row \<in> set (idl_fans (idl st1))" using sh assms(10) by (simp add: only_shrinks_def)
    ultimately have "lf_name f \<in> fst ` set (shash_nodes P (fan_data st1))"
      using assms(11) unfolding rows_known_def by (metis image_eqI subsetD)
    then obtain q where "(lf_name f, q) \<in> set (shash_nodes P (fan_data st1))" by force
    from inv_fan_data_fan [OF inv1 this] obtain g where g: "fan_mem st1 q = Some g" "lf_name g = lf_name f" by blast
    with sh have "fan_mem st q = Some g" by (auto simp: only_shrinks_def)
    moreover from inv_fan_name_inject [OF inv0 this assms(7) g(2)] have "q = p" .
    ultimately have "g = f" using assms(7) by simp
    with inv1 g(1) obtain s1 where s1: "subsys_mem st1 (subsystem f) = Some s1"
      by (force simp: fand_inv_def subsystem_fans_ok_def)
    from sh have "\<forall>a s. subsys_mem st1 a = Some s \<longrightarrow>
        (\<exists>s0. subsys_mem st a = Some s0 \<and> ls_name s0 = ls_name s)" by (simp add: only_shrinks_def)
    with s1 assms(8) have "ls_name s1 = ls_name ss" by (metis option.inject)
    moreover from r s1 have "\<exists>cfg \<in> set (idl_subsystems (idl ?st)). follows cfg s1"
      unfolding reconfigured_def by blast
    then obtain cfg where "cfg \<in> set (idl_subsystems i)" "follows cfg s1" by auto
    ultimately show False using assms(9) by (auto simp: follows_def)
  qed
  with fand_read_status_post [OF P(1,2) inv1] obtain e where "fand_read_status P st1 = Inl e"
    "e = NullDeref \<or> e = SignedOverflow"
    by (cases "fand_read_status P st1") (auto simp: status_read_def)
  with 1 assms(3) show ?thesis by (auto simp: fand_run_locked)
qed

end
