(* ===== verification/Fan_Vty.thy ===== *)
theory Fan_Vty
  imports Platform Printing
begin

text \<open>
  The commands of \<open>cli/fan_vty.c\<close>: \<open>fan-speed\<close>, \<open>no fan-speed\<close> and \<open>show system fan\<close>, on the shell's
  replica of the database, and their registration with the shell.
\<close>

section \<open>The shell\<close>

text \<open>
  What the commands use of the shell and of generated code, an argument of the definitions:
  \<^item> the macros \<open>FAN_SPEED_OVERRIDE_STR\<close>, \<open>VTYSH_STR_EQ\<close> and \<open>VTY_NEWLINE\<close>;
  \<^item> \<open>cli_do_config_start\<close>: whether a transaction could be created;
  \<^item> \<open>cli_do_config_finish\<close>: its status, and the replica after it, from the replica before the
    transaction and the replica with the transaction's writes;
  \<^item> \<open>ovsrec_fan_get_rpm\<close>: NULL (\<open>None\<close>) or a datum, whose \<open>keys\<close> may be NULL (\<open>Some None\<close>);
  \<^item> the result of \<open>install_show_run_config_subcontext\<close>.
\<close>

datatype ovsdb_idl_txn_status = TXN_SUCCESS | TXN_UNCHANGED | TXN_OTHER int

datatype cmd_result = CMD_SUCCESS | CMD_OVSDB_FAILURE

datatype vtysh_ret_val = e_vtysh_ok | e_vtysh_error | e_vtysh_other int

record vtysh =
  fan_speed_override_str :: string
  vtysh_str_eq :: "string \<Rightarrow> string \<Rightarrow> bool"
  vty_newline :: string
  cli_do_config_start :: "ovsdb_idl \<Rightarrow> bool"
  cli_do_config_finish :: "ovsdb_idl \<Rightarrow> ovsdb_idl \<Rightarrow> ovsdb_idl_txn_status \<times> ovsdb_idl"
  ovsrec_fan_get_rpm :: "ovsrec_fan \<Rightarrow> int option option"
  install_show_run_config_subcontext :: vtysh_ret_val

text \<open>The documented meaning of the macros; a transaction that fails has no effect.\<close>

definition vtysh_ok :: "vtysh \<Rightarrow> bool" where
  "vtysh_ok V \<longleftrightarrow> fan_speed_override_str V = ''fan_speed_override'' \<and>
     (\<forall>s t. vtysh_str_eq V s t \<longleftrightarrow> s = t)"

definition cli_txn_ok :: "vtysh \<Rightarrow> bool" where
  "cli_txn_ok V \<longleftrightarrow> (\<forall>before staged s after. cli_do_config_finish V before staged = (s, after) \<longrightarrow>
     after = (if s = TXN_SUCCESS \<or> s = TXN_UNCHANGED then staged else before))"

section \<open>Setting the override\<close>

definition vtysh_ovsdb_fan_speed_set :: "vtysh \<Rightarrow> string option \<Rightarrow> bool \<Rightarrow> ovsdb_idl \<Rightarrow>
    cmd_result \<times> ovsdb_idl" where
  "vtysh_ovsdb_fan_speed_set V speed is_set i =
     (if \<not> cli_do_config_start V i then (CMD_OVSDB_FAILURE, i)
      else case idl_subsystems i of
        [] \<Rightarrow> (CMD_OVSDB_FAILURE, i)
      | row # rows \<Rightarrow>
          (let smap = os_other_config row;
               smap = (if is_set \<and> speed \<noteq> None then smap(fan_speed_override_str V := speed)
                       else smap(fan_speed_override_str V := None));
               staged = i\<lparr>idl_subsystems := row\<lparr>os_other_config := smap\<rparr> # rows\<rparr>;
               (status, i) = cli_do_config_finish V i staged
           in if status = TXN_SUCCESS \<or> status = TXN_UNCHANGED then (CMD_SUCCESS, i)
              else (CMD_OVSDB_FAILURE, i)))"

text \<open>The words that the grammar of the commands accepts.\<close>

definition fan_speed_words :: "string list" where
  "fan_speed_words = [''normal'', ''slow'', ''medium'', ''fast'', ''max'']"

definition vtysh_fan_speed :: "vtysh \<Rightarrow> string \<Rightarrow> ovsdb_idl \<Rightarrow> cmd_result \<times> ovsdb_idl" where
  "vtysh_fan_speed V arg i = vtysh_ovsdb_fan_speed_set V (Some arg) True i"

definition vtysh_no_fan_speed :: "vtysh \<Rightarrow> ovsdb_idl \<Rightarrow> cmd_result \<times> ovsdb_idl" where
  "vtysh_no_fan_speed V i = vtysh_ovsdb_fan_speed_set V None False i"

section \<open>Showing the fans\<close>

definition ruler :: "vtysh \<Rightarrow> string" where
  "ruler V = replicate 54 CHR ''-'' @ vty_newline V"

text \<open>One row, lines 151-159; the local \<open>rpm\<close> keeps its value when there is no datum.\<close>

definition show_fan :: "vtysh \<Rightarrow> ovsrec_fan \<Rightarrow> int \<times> string \<Rightarrow> fault + int \<times> string" where
  "show_fan V row = (\<lambda>(rpm, out).
     and_then (case ovsrec_fan_get_rpm V row of
         None \<Rightarrow> Inr rpm
       | Some keys \<Rightarrow> deref NullDeref keys) (\<lambda>rpm.
       Inr (rpm, out @ pad_right 13 (of_name row) @ pad_right 7 (of_speed row)
         @ pad_right 15 (if take 3 (of_direction row) = ''f2b'' then ''front-to-back'' else ''back-to-front'')
         @ pad_right 14 (of_status row) @ pad_right 8 (dec_int rpm) @ vty_newline V)))"

definition vtysh_ovsdb_fan_show :: "vtysh \<Rightarrow> ovsdb_idl \<Rightarrow> string \<Rightarrow> fault + string" where
  "vtysh_ovsdb_fan_show V i out =
     (case idl_subsystems i of
        [] \<Rightarrow> Inr out
      | subsysrow # _ \<Rightarrow>
          and_then (foreach (show_fan V) (idl_fans i) (0, out)) (\<lambda>(_, out).
            Inr (out @ ruler V
              @ (case os_other_config subsysrow ''fan_speed_override'' of
                   Some override \<Rightarrow> ''Fan speed override is set to : '' @ override @ vty_newline V
                 | None \<Rightarrow> ''Fan speed override is not configured '' @ vty_newline V)
              @ ruler V)))"

definition vtysh_show_system_fan :: "vtysh \<Rightarrow> ovsdb_idl \<Rightarrow> fault + string" where
  "vtysh_show_system_fan V i =
     vtysh_ovsdb_fan_show V i
       (''Fan information'' @ vty_newline V @ ruler V
        @ pad_right 13 ''Name'' @ pad_right 7 ''Speed'' @ pad_right 15 ''Direction''
        @ pad_right 14 ''Status'' @ pad_right 8 ''RPM'' @ vty_newline V @ ruler V)"

section \<open>Registration\<close>

datatype cli_node = VIEW_NODE | ENABLE_NODE | CONFIG_NODE

datatype cli_command = Show_System_Fan | Fan_Speed | No_Fan_Speed

text \<open>\<open>cli_pre_init\<close> does nothing.\<close>

definition cli_pre_init :: "(cli_node \<times> cli_command) list" where
  "cli_pre_init = []"

definition cli_post_init :: "vtysh \<Rightarrow> fault + (cli_node \<times> cli_command) list" where
  "cli_post_init V =
     (let installed = [(VIEW_NODE, Show_System_Fan), (ENABLE_NODE, Show_System_Fan),
                       (CONFIG_NODE, Fan_Speed), (CONFIG_NODE, No_Fan_Speed)]
      in if install_show_run_config_subcontext V \<noteq> e_vtysh_ok then Inl AssertFailure
         else Inr installed)"

section \<open>The override\<close>

text \<open>The effect of a command that writes \<open>v\<close> (\<open>None\<close> removes the key) into the first row.\<close>

definition with_override :: "string \<Rightarrow> string option \<Rightarrow> ovsdb_idl \<Rightarrow> ovsdb_idl" where
  "with_override key v i = (case idl_subsystems i of
     [] \<Rightarrow> i
   | row # rows \<Rightarrow> i\<lparr>idl_subsystems := row\<lparr>os_other_config := (os_other_config row)(key := v)\<rparr> # rows\<rparr>)"

lemma fan_speed_set_result:
  assumes V: "cli_txn_ok V" and run: "vtysh_ovsdb_fan_speed_set V speed is_set i = (r, i')"
  shows "i' = (if r = CMD_SUCCESS then with_override (fan_speed_override_str V) (if is_set then speed else None) i else i)"
proof (cases "cli_do_config_start V i \<and> idl_subsystems i \<noteq> []")
  case False
  then have "vtysh_ovsdb_fan_speed_set V speed is_set i = (CMD_OVSDB_FAILURE, i)"
    by (cases "idl_subsystems i") (simp_all add: vtysh_ovsdb_fan_speed_set_def)
  with run show ?thesis by auto
next
  case True
  then obtain row rows where rows: "idl_subsystems i = row # rows" by (cases "idl_subsystems i") auto
  let ?v = "if is_set then speed else None"
  let ?staged = "i\<lparr>idl_subsystems := row\<lparr>os_other_config := (os_other_config row)(fan_speed_override_str V := ?v)\<rparr> # rows\<rparr>"
  obtain s after where fin: "cli_do_config_finish V i ?staged = (s, after)" by fastforce
  with V have after: "after = (if s = TXN_SUCCESS \<or> s = TXN_UNCHANGED then ?staged else i)"
    unfolding cli_txn_ok_def by blast
  have "vtysh_ovsdb_fan_speed_set V speed is_set i =
      (if s = TXN_SUCCESS \<or> s = TXN_UNCHANGED then CMD_SUCCESS else CMD_OVSDB_FAILURE, after)"
    using True rows fin by (cases is_set; cases speed) (simp_all add: vtysh_ovsdb_fan_speed_set_def Let_def)
  with run after rows show ?thesis by (auto simp: with_override_def)
qed

lemma with_override_with_override [simp]:
  "with_override k v (with_override k w i) = with_override k v i"
  by (simp add: with_override_def split: list.split)

lemma with_override_same:
  "\<forall>row rows. idl_subsystems i = row # rows \<longrightarrow> os_other_config row k = v \<Longrightarrow> with_override k v i = i"
  by (cases "idl_subsystems i"; cases i) (auto simp: with_override_def)

section \<open>The table\<close>

text \<open>The line of a row with an rpm value, and the reader of its columns.\<close>

definition fan_line :: "ovsrec_fan \<Rightarrow> int \<Rightarrow> string" where
  "fan_line row n = pad_right 13 (of_name row) @ pad_right 7 (of_speed row)
     @ pad_right 15 (if take 3 (of_direction row) = ''f2b'' then ''front-to-back'' else ''back-to-front'')
     @ pad_right 14 (of_status row) @ pad_right 8 (dec_int n)"

definition rpm_reads :: "vtysh \<Rightarrow> bool" where
  "rpm_reads V \<longleftrightarrow> (\<forall>r. ovsrec_fan_get_rpm V r = Some (of_rpm r))"

lemma show_fans_eq:
  assumes V: "rpm_reads V" and "\<forall>r \<in> set rows. of_rpm r \<noteq> None"
  shows "\<exists>last. foreach (show_fan V) rows (n, out) =
    Inr (last, out @ concat (map (\<lambda>r. fan_line r (the (of_rpm r)) @ vty_newline V) rows))"
  using assms(2)
proof (induction rows arbitrary: n out)
  case (Cons r rows)
  then obtain m where m: "of_rpm r = Some m" by auto
  have get: "ovsrec_fan_get_rpm V r = Some (Some m)" using V m by (simp add: rpm_reads_def)
  have "show_fan V r (n, out) = Inr (m, out @ fan_line r m @ vty_newline V)"
    by (simp add: show_fan_def get fan_line_def)
  moreover from Cons.prems Cons.IH [of m "out @ fan_line r m @ vty_newline V"] obtain last
    where "foreach (show_fan V) rows (m, out @ fan_line r m @ vty_newline V) =
      Inr (last, (out @ fan_line r m @ vty_newline V) @ concat (map (\<lambda>r. fan_line r (the (of_rpm r)) @ vty_newline V) rows))"
    by auto
  ultimately show ?case using m by simp
qed simp

text \<open>A row without an rpm makes the command follow a NULL pointer.\<close>

lemma show_fans_fault:
  assumes V: "rpm_reads V" and "\<exists>r \<in> set rows. of_rpm r = None"
  shows "foreach (show_fan V) rows (n, out) = Inl NullDeref"
  using assms(2)
proof (induction rows arbitrary: n out)
  case (Cons r rows)
  have get: "ovsrec_fan_get_rpm V r = Some (of_rpm r)" using V by (simp add: rpm_reads_def)
  show ?case
  proof (cases "of_rpm r")
    case (Some m)
    with Cons show ?thesis by (simp add: show_fan_def get)
  qed (simp add: show_fan_def get)
qed simp

text \<open>
  The text of \<open>show system fan\<close> for a database with a subsystem whose fans all have an rpm: the
  header, one line per fan in table order, and the override of the first subsystem.
\<close>

definition fan_table_header :: "vtysh \<Rightarrow> string" where
  "fan_table_header V = ''Fan information'' @ vty_newline V @ ruler V
     @ pad_right 13 ''Name'' @ pad_right 7 ''Speed'' @ pad_right 15 ''Direction''
     @ pad_right 14 ''Status'' @ pad_right 8 ''RPM'' @ vty_newline V @ ruler V"

definition fan_table_footer :: "vtysh \<Rightarrow> ovsrec_subsystem \<Rightarrow> string" where
  "fan_table_footer V s = ruler V
     @ (case os_other_config s ''fan_speed_override'' of
          Some override \<Rightarrow> ''Fan speed override is set to : '' @ override
        | None \<Rightarrow> ''Fan speed override is not configured '') @ vty_newline V
     @ ruler V"

lemma show_system_fan_eq:
  assumes "rpm_reads V" "idl_subsystems i = s # ss" "\<forall>r \<in> set (idl_fans i). of_rpm r \<noteq> None"
  shows "vtysh_show_system_fan V i = Inr (fan_table_header V
    @ concat (map (\<lambda>r. fan_line r (the (of_rpm r)) @ vty_newline V) (idl_fans i)) @ fan_table_footer V s)"
proof -
  from show_fans_eq [OF assms(1,3), of 0 "fan_table_header V"] obtain last where
    "foreach (show_fan V) (idl_fans i) (0, fan_table_header V) =
      Inr (last, fan_table_header V @ concat (map (\<lambda>r. fan_line r (the (of_rpm r)) @ vty_newline V) (idl_fans i)))"
    by blast
  then have "vtysh_ovsdb_fan_show V i (fan_table_header V) = Inr (fan_table_header V
      @ concat (map (\<lambda>r. fan_line r (the (of_rpm r)) @ vty_newline V) (idl_fans i)) @ fan_table_footer V s)"
    by (simp add: vtysh_ovsdb_fan_show_def assms(2) fan_table_footer_def split: option.split)
  then show ?thesis by (simp add: vtysh_show_system_fan_def fan_table_header_def)
qed

definition word :: "string \<Rightarrow> string" where
  "word s = takeWhile (\<lambda>c. c \<noteq> CHR '' '') s"

definition fan_columns :: "string \<Rightarrow> string \<times> string \<times> string \<times> string \<times> int" where
  "fan_columns s = (word (take 13 s), word (take 7 (drop 13 s)), word (take 15 (drop 20 s)),
     word (take 14 (drop 35 s)), read_int (word (take 8 (drop 49 s))))"

lemma word_pad [simp]: "CHR '' '' \<notin> set s \<Longrightarrow> word (pad_right w s) = s"
proof -
  assume "CHR '' '' \<notin> set s"
  then have "takeWhile (\<lambda>c. c \<noteq> CHR '' '') (s @ replicate n CHR '' '') = s" for n
    by (induction s) (cases n, auto)
  then show ?thesis by (simp add: word_def pad_right_def)
qed

lemma digits_no_space: "CHR '' '' \<notin> set (dec_nat n)"
proof (induction n rule: dec_nat.induct)
  case (1 n)
  note space = digit_neq [of _ "CHR '' ''"]
  from 1 space [of n] space [of "n mod 10"] show ?case by (subst dec_nat.simps) auto
qed

lemma dec_int_no_space [simp]: "CHR '' '' \<notin> set (dec_int n)"
  using digits_no_space by (simp add: dec_int_def)

lemma fan_columns_line:
  assumes "length (of_name r) \<le> 13" "length (of_speed r) \<le> 7" "length (of_status r) \<le> 14" "length (dec_int n) \<le> 8"
    and "CHR '' '' \<notin> set (of_name r)" "CHR '' '' \<notin> set (of_speed r)" "CHR '' '' \<notin> set (of_status r)"
  shows "fan_columns (fan_line r n) = (of_name r, of_speed r,
    if take 3 (of_direction r) = ''f2b'' then ''front-to-back'' else ''back-to-front'', of_status r, n)"
  using assms by (simp add: fan_columns_def fan_line_def)

section \<open>Properties\<close>

text \<open>
  C34: the effect of \<open>fan-speed\<close> and \<open>no fan-speed\<close>. A command that succeeds changes the override of the
  first subsystem to the word, or removes it, and nothing else of the database; one that fails changes
  nothing.
\<close>

theorem fan_speed_commands:
  assumes "vtysh_ok V" "cli_txn_ok V"
  shows "(case vtysh_fan_speed V w i of (r, i') \<Rightarrow>
      i' = (if r = CMD_SUCCESS then with_override ''fan_speed_override'' (Some w) i else i)) \<and>
    (case vtysh_no_fan_speed V i of (r, i') \<Rightarrow>
      i' = (if r = CMD_SUCCESS then with_override ''fan_speed_override'' None i else i))"
proof -
  have key: "fan_speed_override_str V = ''fan_speed_override''" using assms(1) by (simp add: vtysh_ok_def)
  obtain r i1 r' i2 where run: "vtysh_fan_speed V w i = (r, i1)" "vtysh_no_fan_speed V i = (r', i2)" by fastforce
  from fan_speed_set_result [OF assms(2) run(1) [unfolded vtysh_fan_speed_def]]
    fan_speed_set_result [OF assms(2) run(2) [unfolded vtysh_no_fan_speed_def]]
  show ?thesis by (simp add: run key)
qed

text \<open>
  C35: setting and unsetting. Two settings leave the second word; a setting and its removal, both
  successful, leave the database as it was when there was no override before.
\<close>

theorem fan_speed_undo:
  assumes "vtysh_ok V" "cli_txn_ok V"
    and "vtysh_fan_speed V w i = (CMD_SUCCESS, i1)"
    and "vtysh_fan_speed V w' i1 = (CMD_SUCCESS, i2)" "vtysh_no_fan_speed V i1 = (CMD_SUCCESS, i3)"
  shows "i2 = with_override ''fan_speed_override'' (Some w') i \<and>
    i3 = with_override ''fan_speed_override'' None i \<and>
    ((\<forall>row \<in> set (idl_subsystems i). os_other_config row ''fan_speed_override'' = None) \<longrightarrow> i3 = i)"
proof -
  have key: "fan_speed_override_str V = ''fan_speed_override''" using assms(1) by (simp add: vtysh_ok_def)
  note set = fan_speed_set_result [OF assms(2) assms(3) [unfolded vtysh_fan_speed_def]]
    fan_speed_set_result [OF assms(2) assms(4) [unfolded vtysh_fan_speed_def]]
    fan_speed_set_result [OF assms(2) assms(5) [unfolded vtysh_no_fan_speed_def]]
  have "with_override ''fan_speed_override'' None i = i"
    if "\<forall>row \<in> set (idl_subsystems i). os_other_config row ''fan_speed_override'' = None"
    using that by (intro with_override_same) auto
  with set show ?thesis by (simp add: key)
qed

text \<open>
  C37: \<open>show system fan\<close> on a fan row that has no rpm yet, as the daemon leaves it between adding the fan
  and its first reading, follows the NULL \<open>keys\<close> of an empty datum.
\<close>

theorem show_without_rpm:
  assumes "rpm_reads V" "idl_subsystems i \<noteq> []" "r \<in> set (idl_fans i)" "of_rpm r = None"
  shows "vtysh_show_system_fan V i = Inl NullDeref"
proof -
  obtain s ss where "idl_subsystems i = s # ss" using assms(2) by (cases "idl_subsystems i") auto
  moreover have "foreach (show_fan V) (idl_fans i) (0, out) = Inl NullDeref" for out
    using assms(3,4) by (intro show_fans_fault [OF assms(1)]) blast
  ultimately show ?thesis by (simp add: vtysh_show_system_fan_def vtysh_ovsdb_fan_show_def)
qed

text \<open>
  C38: the columns of the table can be read back. For a row with an rpm, whose name, speed, status and rpm
  fit their fields and hold no space, the command adds one line, and the columns of this line give back
  these four and the direction in words.
\<close>

theorem show_columns:
  assumes "rpm_reads V" "of_rpm r = Some n"
    and "length (of_name r) \<le> 13" "length (of_speed r) \<le> 7" "length (of_status r) \<le> 14"
    and "length (dec_int n) \<le> 8" "list_all (\<lambda>s. CHR '' '' \<notin> set s) [of_name r, of_speed r, of_status r]"
  shows "\<exists>l. show_fan V r (k, out) = Inr (n, out @ l @ vty_newline V) \<and>
    fan_columns l = (of_name r, of_speed r,
      if take 3 (of_direction r) = ''f2b'' then ''front-to-back'' else ''back-to-front'', of_status r, n)"
proof -
  have "ovsrec_fan_get_rpm V r = Some (Some n)" using assms(1,2) by (simp add: rpm_reads_def)
  then have "show_fan V r (k, out) = Inr (n, out @ fan_line r n @ vty_newline V)"
    by (simp add: show_fan_def fan_line_def)
  with assms(3-) show ?thesis by (intro exI [of _ "fan_line r n"] conjI fan_columns_line) simp_all
qed

end
