(* ===== verification/Fan_Context.thy ===== *)
theory Fan_Context
  imports Fan_Vty
begin

text \<open>
  \<open>cli/vtysh_ovsdb_fan_context.c\<close>: what \<open>show running-config\<close> prints for the fans, and what loading the
  printed commands gives back.
\<close>

section \<open>The code\<close>

text \<open>The printed lines are accumulated in \<open>out\<close>; \<open>None\<close> is a NULL \<open>smap\<close>.\<close>

definition vtysh_ovsdb_subsystemtable_parse_othercfg :: "vtysh \<Rightarrow> (string \<Rightarrow> string option) option \<Rightarrow>
    string list \<Rightarrow> vtysh_ret_val \<times> string list" where
  "vtysh_ovsdb_subsystemtable_parse_othercfg V subsystemrow_config out =
     (case subsystemrow_config of
        None \<Rightarrow> (e_vtysh_error, out)
      | Some config \<Rightarrow>
          (case config (fan_speed_override_str V) of
             None \<Rightarrow> (e_vtysh_ok, out)
           | Some data \<Rightarrow>
               if \<not> vtysh_str_eq V data ''normal'' then (e_vtysh_ok, out @ [''fan-speed '' @ data])
               else (e_vtysh_ok, out)))"

definition vtysh_config_context_fan_clientcallback :: "vtysh \<Rightarrow> ovsdb_idl \<Rightarrow>
    string list \<Rightarrow> vtysh_ret_val \<times> string list" where
  "vtysh_config_context_fan_clientcallback V i out =
     (case idl_subsystems i of
        [] \<Rightarrow> (e_vtysh_ok, out)
      | subsysrow # _ \<Rightarrow>
          (e_vtysh_ok, snd (vtysh_ovsdb_subsystemtable_parse_othercfg V (Some (os_other_config subsysrow)) out)))"

section \<open>Loading a configuration\<close>

text \<open>The override that a row of a replica holds.\<close>

definition override_of :: "ovsdb_idl \<Rightarrow> string option" where
  "override_of i = (case idl_subsystems i of [] \<Rightarrow> None | row # _ \<Rightarrow> os_other_config row ''fan_speed_override'')"

text \<open>The effect of a list of lines, each a command of the grammar \<open>fan-speed <word>\<close>, that all succeed.\<close>

fun load_config :: "string list \<Rightarrow> ovsdb_idl \<Rightarrow> ovsdb_idl option" where
  "load_config [] i = Some i"
| "load_config (l # ls) i =
     (if take 10 l = ''fan-speed '' \<and> drop 10 l \<in> set fan_speed_words
      then load_config ls (with_override ''fan_speed_override'' (Some (drop 10 l)) i) else None)"

lemma callback_lines:
  assumes V: "vtysh_ok V"
  shows "vtysh_config_context_fan_clientcallback V i out = (e_vtysh_ok, out @
    (case override_of i of None \<Rightarrow> [] | Some w \<Rightarrow> if w = ''normal'' then [] else [''fan-speed '' @ w]))"
proof (cases "idl_subsystems i")
  case (Cons row rows)
  with V show ?thesis
    by (cases "os_other_config row ''fan_speed_override''")
      (simp_all add: vtysh_config_context_fan_clientcallback_def override_of_def vtysh_ok_def
        vtysh_ovsdb_subsystemtable_parse_othercfg_def)
qed (simp add: vtysh_config_context_fan_clientcallback_def override_of_def)

lemma override_of_with_override:
  "override_of (with_override ''fan_speed_override'' v i) = (if idl_subsystems i = [] then None else v)"
  by (simp add: override_of_def with_override_def split: list.split)

lemma load_callback:
  assumes V: "vtysh_ok V" and w: "case override_of i of None \<Rightarrow> True | Some w \<Rightarrow> w \<in> set fan_speed_words"
    and cleared: "i0 = with_override ''fan_speed_override'' None i"
  shows "load_config (snd (vtysh_config_context_fan_clientcallback V i [])) i0 =
    Some (if override_of i = Some ''normal'' then i0 else i)"
proof (cases "override_of i")
  case None
  then have "i0 = i"
    unfolding cleared by (intro with_override_same) (auto simp: override_of_def)
  with None show ?thesis by (simp add: callback_lines [OF V])
next
  case (Some w)
  then have ne: "idl_subsystems i \<noteq> []" by (auto simp: override_of_def)
  have "with_override ''fan_speed_override'' (Some w) i = i"
    using Some by (intro with_override_same) (auto simp: override_of_def)
  with Some w show ?thesis
    by (auto simp: callback_lines [OF V] cleared)
qed

section \<open>Properties\<close>

text \<open>
  C36: the running configuration loses an override of normal. For an override that the command accepts,
  loading the printed lines over a database without the override restores the database, except that an
  override of \<open>normal\<close> is not printed and so not restored, although the daemon tells it from no override.
\<close>

theorem running_config_reload:
  assumes "vtysh_ok V" "override_of i \<in> insert None (Some ` set fan_speed_words)"
  shows "load_config (snd (vtysh_config_context_fan_clientcallback V i [])) (with_override ''fan_speed_override'' None i) =
    Some (if override_of i = Some ''normal'' then with_override ''fan_speed_override'' None i else i)"
  using assms(2) by (intro load_callback [OF assms(1)]) auto

end
