(* ===== verification/Sample_Platform.thy ===== *)
theory Sample_Platform
  imports Fand_State
begin

text \<open>
  A concrete platform: association lists for hash tables, a small hardware description with two FRUs
  and three fans for the subsystem \<open>base\<close>, and a bank of registers for the hardware. It satisfies every
  law that the theorems assume, and the theorems are evaluated on it.
\<close>

section \<open>The hardware\<close>

definition sample_fan :: "nat \<Rightarrow> string \<Rightarrow> YamlFan" where
  "sample_fan k n = \<lparr>yf_addr = k, yf_name = n, yf_fan_speed_control = None, yf_fan_speed = Some (10 + k),
     yf_fan_speed_msb = None, yf_fan_fault = Some (20 + k)\<rparr>"

definition sample_frus :: "YamlFanFru list" where
  "sample_frus =
     [\<lparr>fru_number = 1, fru_fans = [sample_fan 1 ''1L'', sample_fan 2 ''1R''], fru_fan_leds = Some 31,
       fru_fan_direction_detect = Some 41, fru_fan_present = Some 51, fru_fan_speed_control = Some 61\<rparr>,
      \<lparr>fru_number = 2, fru_fans = [sample_fan 3 ''2L''], fru_fan_leds = Some 32,
       fru_fan_direction_detect = None, fru_fan_present = Some 52, fru_fan_speed_control = Some 62\<rparr>]"

definition sample_info :: "fan_speed_control_type \<Rightarrow> YamlFanInfo" where
  "sample_info t = \<lparr>number_fan_frus = 2, fan_speed_control_type = t, info_fan_speed_control = Some 60,
     fan_speed_settings = \<lparr>set_slow = 10, set_normal = 13, set_medium = 16, set_fast = 19, set_max = 21\<rparr>,
     fan_led_values = \<lparr>led_off = 0, led_good = 1, led_fault = 2\<rparr>, info_fan_led = Some 30,
     direction_f2b = 1, fan_speed_multiplier = 100, fan_speed_numerator = 0\<rparr>"

text \<open>Registers hold bytes; register 99 is on a bus that fails.\<close>

definition sample_read :: "(nat \<Rightarrow> u32) \<Rightarrow> i2c_op option \<Rightarrow> u32 \<Rightarrow> (nat \<Rightarrow> u32) \<times> int \<times> u32" where
  "sample_read h op old = (case op of
     None \<Rightarrow> (h, -1, old)
   | Some r \<Rightarrow> if r = 99 then (h, -1, old) else (h, 0, ucast (ucast (h r) :: u8)))"

definition sample_write :: "(nat \<Rightarrow> u32) \<Rightarrow> i2c_op option \<Rightarrow> u8 \<Rightarrow> (nat \<Rightarrow> u32) \<times> int" where
  "sample_write h op v = (case op of
     None \<Rightarrow> (h, -1)
   | Some r \<Rightarrow> if r = 99 then (h, -1) else (h(r := ucast v), 0))"

section \<open>The platform\<close>

text \<open>Only \<open>base\<close> has a description of fans, once it is loaded.\<close>

definition described :: "string list \<Rightarrow> string \<Rightarrow> bool" where
  "described y n \<longleftrightarrow> n \<in> set y \<and> n = ''base''"

definition next_uuid :: "ovsrec_fan list \<Rightarrow> nat" where
  "next_uuid rows = Suc (fold max (map of_uuid rows) 0)"

definition sample :: "fan_speed_control_type \<Rightarrow>
    ((string \<times> addr) list, string list, nat \<Rightarrow> u32) platform" where
  "sample t = \<lparr>
     shash_init = [],
     shash_add = (\<lambda>s n d. s @ [(n, d)]),
     shash_find = (\<lambda>s n. find (\<lambda>nd. fst nd = n) s),
     shash_delete = (\<lambda>s nd. remove1 nd s),
     shash_nodes = (\<lambda>s. s),
     yaml_add_subsystem = (\<lambda>y n d. if d = ''/bad'' then (y, 1) else (n # y, 0)),
     yaml_parse_devices = (\<lambda>y n. (y, 0)),
     yaml_parse_fans = (\<lambda>y n. (y, 0)),
     yaml_get_fan_info = (\<lambda>y n. if described y n then Some (sample_info t) else None),
     yaml_get_fan_fru_count = (\<lambda>y n. if described y n then 2 else 0),
     yaml_get_fan_fru = (\<lambda>y n i. if described y n \<and> i < 2 then Some (sample_frus ! i) else None),
     i2c_reg_read = (\<lambda>y h n op old. sample_read h op old),
     i2c_reg_write = (\<lambda>y h n op v. sample_write h op v),
     malloc_fan = (\<lambda>p. (FAND_SPEED_NONE, ''?'', 0, FAND_STATUS_FAULT)),
     stack_junk = 0,
     fan_insert = (\<lambda>rows. (rows @ [\<lparr>of_uuid = next_uuid rows, of_name = [], of_speed = [],
        of_direction = [], of_status = [], of_rpm = None\<rparr>], next_uuid rows)),
     txn_commit_block = (\<lambda>before staged. staged)\<rparr>"

section \<open>The laws\<close>

lemma sample_simps [simp]:
  "shash_init (sample t) = []" "shash_add (sample t) s n d = s @ [(n, d)]"
  "shash_find (sample t) s n = find (\<lambda>nd. fst nd = n) s" "shash_delete (sample t) s nd = remove1 nd s"
  "shash_nodes (sample t) s = s"
  "yaml_add_subsystem (sample t) y n dir = (if dir = ''/bad'' then (y, 1) else (n # y, 0))"
  "yaml_parse_devices (sample t) y n = (y, 0)" "yaml_parse_fans (sample t) y n = (y, 0)"
  "yaml_get_fan_info (sample t) y n = (if described y n then Some (sample_info t) else None)"
  "yaml_get_fan_fru_count (sample t) y n = (if described y n then 2 else 0)"
  "yaml_get_fan_fru (sample t) y n i = (if described y n \<and> i < 2 then Some (sample_frus ! i) else None)"
  "i2c_reg_read (sample t) y h n op old = sample_read h op old"
  "i2c_reg_write (sample t) y h n op v = sample_write h op v"
  "malloc_fan (sample t) p = (FAND_SPEED_NONE, ''?'', 0, FAND_STATUS_FAULT)"
  "stack_junk (sample t) = 0" "txn_commit_block (sample t) before staged = staged"
  by (simp_all add: sample_def)

lemma sample_fan_insert [simp]:
  "fan_insert (sample t) rows = (rows @ [\<lparr>of_uuid = next_uuid rows, of_name = [], of_speed = [],
     of_direction = [], of_status = [], of_rpm = None\<rparr>], next_uuid rows)"
  by (simp add: sample_def)

lemma find_name: "find (\<lambda>nd. fst nd = n) s = Some nd \<Longrightarrow> nd \<in> set s \<and> fst nd = n"
  by (induction s) (auto split: if_splits)

lemma find_name_None: "find (\<lambda>nd. fst nd = n) s = None \<longleftrightarrow> n \<notin> fst ` set s"
  by (induction s) auto

lemma sample_shash: "shash_ok (sample t)"
  unfolding shash_ok_def sample_simps find_name_None using find_name by force

lemma described_other: "m \<noteq> n \<Longrightarrow> described (n # y) m = described y m"
  by (auto simp: described_def)

lemma sample_yaml: "yaml_ok (sample t)"
  unfolding yaml_ok_def
proof (intro conjI allI impI)
  fix y n info assume "yaml_get_fan_info (sample t) y n = Some info"
  then show "number_fan_frus info = unat (yaml_get_fan_fru_count (sample t) y n)"
    by (auto simp: sample_info_def split: if_splits)
next
  fix y m and n d :: string assume "m \<noteq> n"
  then show "yaml_view (sample t) (fst (yaml_add_subsystem (sample t) y n d)) m = yaml_view (sample t) y m"
    by (simp add: yaml_view_def fun_eq_iff described_other)
qed (simp_all split: if_splits)

lemma sample_yaml_fans:
  "yaml_fans (sample t) y n =
     (if described y n then [sample_fan 1 ''1L'', sample_fan 2 ''1R'', sample_fan 3 ''2L''] else [])"
  by (simp add: yaml_fans_def sample_frus_def upt_rec)

lemma sample_names: "fan_names_ok (sample t)"
proof -
  have "distinct (map yf_name [sample_fan 1 ''1L'', sample_fan 2 ''1R'', sample_fan 3 ''2L''])"
    by (simp add: sample_fan_def)
  then show ?thesis
    unfolding fan_names_ok_def sample_yaml_fans described_def by (simp split: if_splits)
qed

lemma next_uuid_fresh: "next_uuid rows \<notin> of_uuid ` set rows"
proof -
  have eq: "next_uuid rows = Suc (Max (set (0 # map of_uuid rows)))"
    by (simp only: next_uuid_def Max.set_eq_fold)
  have "of_uuid r < next_uuid rows" if "r \<in> set rows" for r
    unfolding eq less_Suc_eq_le using that by (intro Max_ge) simp_all
  then show ?thesis by force
qed

lemma sample_insert: "fan_insert_ok (sample t)"
  unfolding fan_insert_ok_def using next_uuid_fresh by simp

lemma sample_commits: "commits (sample t)"
  by (simp add: commits_def)

lemma sample_atomic: "commit_atomic (sample t)"
  by (simp add: commit_atomic_def)

lemmas sample_laws = sample_shash sample_yaml sample_names sample_insert sample_commits sample_atomic

section \<open>A database and a program start\<close>

definition sample_subsystem :: "string \<Rightarrow> string \<Rightarrow> string option \<Rightarrow> string list \<Rightarrow> ovsrec_subsystem" where
  "sample_subsystem n dir override sensors =
     \<lparr>os_uuid = 100, os_name = n, os_hw_desc_dir = Some dir,
      os_other_config = (case override of None \<Rightarrow> Map.empty | Some w \<Rightarrow> [''fan_speed_override'' \<mapsto> w]),
      os_temp_sensors = map (\<lambda>s. \<lparr>ts_fan_state = Some s\<rparr>) sensors, os_fans = []\<rparr>"

definition sample_idl :: "ovsrec_subsystem list \<Rightarrow> nat \<Rightarrow> ovsdb_idl" where
  "sample_idl subs n = \<lparr>idl_fans = [], idl_subsystems = subs,
     idl_daemons = [\<lparr>od_name = ''ops-fand'', od_cur_hw = 0\<rparr>], idl_get_seqno = n,
     idl_has_lock = True, idl_is_lock_contended = False\<rparr>"

definition sample_start :: "((string \<times> addr) list, string list, nat \<Rightarrow> u32) fand" where
  "sample_start = \<lparr>subsystem_data = [], fan_data = [], subsys_mem = Map.empty, fan_mem = Map.empty,
     next_addr = 0, yaml_handle = [], hw = (\<lambda>r. if r \<in> {11, 12, 13} then 50 else if r \<in> {51, 52} then 1 else 0),
     idl = sample_idl [] 0, idl_seqno = 0, cur_hw_set = False, io = []\<rparr>"

end
