(* ===== verification/Examples.thy ===== *)
theory Examples
  imports Fand_Process Fand_Columns Fand_Bounds Fand_Stale Fan_Context Sample_Platform
begin

text \<open>
  The properties at work: a running daemon with one subsystem and three fans on the sample platform, a
  sample shell, and for each property with hypotheses an instance of it where the hypotheses hold.
\<close>

section \<open>A running daemon\<close>

definition base_row :: ovsrec_subsystem where
  "base_row = sample_subsystem ''base'' ''/hw'' None [''fast'', ''max'']"

definition base_subsystem :: "(string \<times> addr) list locl_subsystem" where
  "base_subsystem = \<lparr>ls_name = ''base'', marked = True, valid = True, parent_subsystem = None,
     fan_speed = FAND_SPEED_MAX, fan_speed_override = FAND_SPEED_SLOW, speed = FAND_SPEED_MAX,
     multiplier = 100, numerator = 0,
     subsystem_fans = [(''base-1L'', 1), (''base-1R'', 2), (''base-2L'', 3)]\<rparr>"

definition base_fan :: "nat \<Rightarrow> string \<Rightarrow> locl_fan" where
  "base_fan k n = \<lparr>lf_name = ''base-'' @ n, subsystem = 0, yaml_fan = sample_fan k n,
     lf_speed = FAND_SPEED_MAX, direction = ''b2f'', rpm = 5000, status = FAND_STATUS_OK\<rparr>"

definition base_fan_row :: "nat \<Rightarrow> string \<Rightarrow> ovsrec_fan" where
  "base_fan_row k n = \<lparr>of_uuid = k, of_name = ''base-'' @ n, of_speed = ''max'', of_direction = ''b2f'',
     of_status = ''ok'', of_rpm = Some 5000\<rparr>"

definition base_idl :: ovsdb_idl where
  "base_idl = (sample_idl [base_row] 2)\<lparr>idl_fans := [base_fan_row 1 ''1L'', base_fan_row 2 ''1R'', base_fan_row 3 ''2L'']\<rparr>"

definition sample_running :: "((string \<times> addr) list, string list, nat \<Rightarrow> u32) fand" where
  "sample_running = sample_start\<lparr>subsystem_data := [(''base'', 0)],
     fan_data := [(''base-1L'', 1), (''base-1R'', 2), (''base-2L'', 3)],
     subsys_mem := [0 \<mapsto> base_subsystem],
     fan_mem := [1 \<mapsto> base_fan 1 ''1L'', 2 \<mapsto> base_fan 2 ''1R'', 3 \<mapsto> base_fan 3 ''2L''],
     next_addr := 4, yaml_handle := [''base''], idl := base_idl, idl_seqno := 1\<rparr>"

lemmas sample_running_defs = sample_running_def base_subsystem_def base_fan_def base_fan_row_def base_idl_def
  base_row_def sample_subsystem_def sample_idl_def sample_start_def

abbreviation S :: "((string \<times> addr) list, string list, nat \<Rightarrow> u32) platform" where
  "S \<equiv> sample PER_FRU"

lemma described_base [simp]: "described [''base''] ''base''"
  by (simp add: described_def)

lemma running_simps [simp]:
  "subsystem_data sample_running = [(''base'', 0)]"
  "fan_data sample_running = [(''base-1L'', 1), (''base-1R'', 2), (''base-2L'', 3)]"
  "subsys_mem sample_running = [0 \<mapsto> base_subsystem]"
  "fan_mem sample_running = [1 \<mapsto> base_fan 1 ''1L'', 2 \<mapsto> base_fan 2 ''1R'', 3 \<mapsto> base_fan 3 ''2L'']"
  "next_addr sample_running = 4" "yaml_handle sample_running = [''base'']" "idl sample_running = base_idl"
  "idl_seqno sample_running = 1" "ls_name base_subsystem = ''base''"
  "subsystem_fans base_subsystem = [(''base-1L'', 1), (''base-1R'', 2), (''base-2L'', 3)]"
  "subsystem (base_fan k n) = 0" "lf_name (base_fan k n) = ''base-'' @ n" "yaml_fan (base_fan k n) = sample_fan k n"
  "cur_hw_set sample_running = False"
  by (simp_all add: sample_running_def base_subsystem_def base_fan_def sample_start_def)

lemma running_inv: "fand_inv (sample t) sample_running"
proof -
  have "subsystems_ok (sample t) sample_running"
    by (auto simp: subsystems_ok_def)
  moreover have "fan_table_ok (sample t) sample_running"
    by (auto simp: fan_table_ok_def split: if_splits)
  moreover have "subsystem_fans_ok (sample t) sample_running"
    by (auto simp: subsystem_fans_ok_def split: if_splits)
  moreover have "yaml_linked (sample t) sample_running"
    by (auto simp: yaml_linked_def sample_yaml_fans full_name_def sample_fan_def split: if_splits)
  moreover have "addrs_ok sample_running"
    by (auto simp: addrs_ok_def split: if_splits)
  ultimately show ?thesis by (simp add: fand_inv_def)
qed

lemma platform_sample: "platform_ok (sample t)"
  by (simp add: platform_ok_def sample_laws)

lemma running_rows: "rows_known (sample t) sample_running"
  by (simp add: rows_known_def base_idl_def base_fan_row_def)

lemma running_fans_live: "fans_live (sample t) base_subsystem sample_running"
  by (simp add: fans_live_def)

section \<open>A shell\<close>

definition sample_shell :: vtysh where
  "sample_shell = \<lparr>fan_speed_override_str = ''fan_speed_override'', vtysh_str_eq = (\<lambda>s t. s = t),
     vty_newline = ''\<newline>'', cli_do_config_start = (\<lambda>i. True),
     cli_do_config_finish = (\<lambda>before staged. (TXN_SUCCESS, staged)),
     ovsrec_fan_get_rpm = (\<lambda>r. Some (of_rpm r)), install_show_run_config_subcontext = e_vtysh_ok\<rparr>"

lemma sample_shell_ok: "vtysh_ok sample_shell" "cli_txn_ok sample_shell" "rpm_reads sample_shell"
  by (simp_all add: vtysh_ok_def cli_txn_ok_def rpm_reads_def sample_shell_def)

section \<open>Instances: speed and LEDs\<close>

lemma set_fanspeed_writes_run:
  "\<exists>st'. fand_set_fanspeed S 0 sample_running = Inr st' \<and> io st' = io sample_running @
    [FanSpeedEvent ''base'' ''MAX'' 21, I2cWrite ''base'' (Some 61) 21, I2cWrite ''base'' (Some 62) 21]"
  using set_fanspeed_writes [of S sample_running 0 base_subsystem "sample_info PER_FRU" "''MAX''" 21]
  by (simp add: sample_yaml fand_choose_speed_def base_subsystem_def fand_speed_setting_def sample_info_def
      opt_write_def sample_frus_def upt_rec) blast

lemma set_fanleds_writes_run:
  "\<exists>st'. fand_set_fanleds S 0 sample_running = Inr st' \<and> subsys_mem st' = subsys_mem sample_running"
  using set_fanleds_writes [of S sample_running 0 base_subsystem "sample_info PER_FRU"]
    running_fans_live sample_yaml by simp blast

lemma get_local_fan_spec_run:
  "\<exists>f. get_local_fan S base_subsystem ''1R'' sample_running = Inr (Some 2) \<and>
    get_local_fan S base_subsystem ''7X'' sample_running = Inr (Some 3) \<and>
    fan_mem sample_running 2 = Some f \<and> lf_name f = ''base-1R''"
proof -
  have nodes: "shash_nodes S (subsystem_fans base_subsystem) = [(''base-1L'', 1), (''base-1R'', 2), (''base-2L'', 3)]"
    by simp
  from get_local_fan_spec [OF running_fans_live, of PER_FRU "''7X''"]
  have miss: "get_local_fan S base_subsystem ''7X'' sample_running = Inr (Some 3)"
    by (simp add: full_name_def)
  from get_local_fan_spec [OF running_fans_live, of PER_FRU "''1R''"] obtain p f
    where p: "get_local_fan S base_subsystem ''1R'' sample_running = Inr (Some p)"
      "fan_mem sample_running p = Some f" "lf_name f = ''base-1R''"
    by (auto simp: full_name_def)
  then have "p = 2" by (auto split: if_splits)
  with p miss show ?thesis by auto
qed

section \<open>Instances: readings\<close>

lemma read_fan_status_effect_run:
  "post {SignedOverflow} (\<lambda>st'. subsys_mem st' = subsys_mem sample_running)
    (fand_read_fan_status S 3 sample_running)"
proof -
  have "yaml_fan (base_fan 3 ''2L'') \<in> set (yaml_fans S (yaml_handle sample_running) (ls_name base_subsystem))"
    by (simp add: sample_yaml_fans)
  then have "post {SignedOverflow} (\<lambda>st'. \<exists>d r s. d \<in> {''f2b'', ''b2f''} \<and>
      s \<in> {FAND_STATUS_UNINITIALIZED, FAND_STATUS_OK, FAND_STATUS_FAULT} \<and>
      fan_mem st' = (fan_mem sample_running)(3 \<mapsto> (base_fan 3 ''2L'')\<lparr>direction := d, rpm := r, status := s\<rparr>) \<and>
      subsys_mem st' = subsys_mem sample_running \<and> subsystem_data st' = subsystem_data sample_running \<and>
      fan_data st' = fan_data sample_running \<and> idl st' = idl sample_running)
    (fand_read_fan_status S 3 sample_running)"
    using read_fan_status_effect [of S sample_running 3 "base_fan 3 ''2L''" base_subsystem] sample_yaml by simp
  then show ?thesis by (rule post_weaken) auto
qed

text \<open>The presence pin of the second FRU is pulled.\<close>

definition pulled :: "((string \<times> addr) list, string list, nat \<Rightarrow> u32) fand" where
  "pulled = sample_running\<lparr>hw := (hw sample_running)(52 := 0)\<rparr>"

lemma presence_decides_run:
  "\<exists>st'. fand_read_fan_status S 3 pulled = Inr st' \<and>
    map_option status (fan_mem st' 3) = Some FAND_STATUS_FAULT \<and> map_option rpm (fan_mem st' 3) = Some 0"
proof -
  let ?f = "base_fan 3 ''2L''" and ?fru = "sample_frus ! 1"
  let ?st = "put_fan 3 (?f\<lparr>direction := ''f2b''\<rparr>) pulled"
  let ?r = "bus_read S ''base'' (Some 52) (stack_junk S) ?st"
  have fru: "fan_fru_get S ''base'' (sample_fan 3 ''2L'') st = Inr (Some ?fru)"
    if "yaml_handle st = [''base'']" for st
    using that by (simp add: fan_fru_get_def upt_rec sample_frus_def sample_fan_def)
  have 1: "fan_mem pulled 3 = Some ?f" "subsys_mem pulled (subsystem ?f) = Some base_subsystem"
    by (simp_all add: pulled_def)
  have 2: "fand_read_direction S (ls_name base_subsystem) (yaml_fan ?f) pulled = Inr (''f2b'', pulled)"
    using fru [of pulled] by (simp add: fand_read_direction_def pulled_def sample_frus_def)
  have 3: "fan_fru_get S (ls_name base_subsystem) (yaml_fan ?f) ?st = Inr (Some ?fru)"
    using fru [of ?st] by (simp add: pulled_def)
  have 4: "fru_fan_present ?fru = Some 52" by (simp add: sample_frus_def)
  have 5: "bus_read S (ls_name base_subsystem) (Some 52) (stack_junk S) ?st = (0, 0, snd (snd ?r))"
    by (simp add: bus_read_def sample_read_def pulled_def put_fan_def)
  from presence_decides [OF 1 2 3 4 5] show ?thesis by auto
qed

section \<open>Instances: subsystems\<close>

lemma sweep_exact_run:
  "\<exists>st'. fand_remove_unmarked_subsystems S sample_running = Inr st' \<and> subsys_mem st' 0 = Some base_subsystem"
  using sweep_exact [OF sample_shash running_inv, of PER_FRU] by (auto simp: base_subsystem_def)

definition other_row :: ovsrec_subsystem where
  "other_row = sample_subsystem ''rack'' ''/bad'' None []"

lemma add_subsystem_effect_run:
  "\<exists>r st'. add_subsystem S other_row sample_running = Inr (r, st') \<and> fand_inv S st' \<and>
    subsys_mem st' 0 = Some base_subsystem"
proof -
  have "os_name other_row \<notin> fst ` set (shash_nodes S (subsystem_data sample_running))"
    by (simp add: other_row_def sample_subsystem_def)
  from add_subsystem_effect [OF sample_shash sample_yaml sample_names running_inv this] show ?thesis by fastforce
qed

section \<open>Instances: reconfiguration and status\<close>

lemma reconfigure_effect_run:
  "\<exists>st'. fand_reconfigure S sample_running = Inr st' \<and> fand_inv S st' \<and> idl_seqno st' = 2"
proof -
  have "distinct (map os_name (idl_subsystems (idl sample_running)))"
    and "idl_get_seqno (idl sample_running) \<noteq> idl_seqno sample_running"
    and "idl_get_seqno (idl sample_running) = 2"
    by (simp_all add: base_idl_def sample_idl_def)
  with reconfigure_effect [OF sample_shash sample_yaml sample_names running_inv this(1,2)] show ?thesis by metis
qed

lemma configure_subsystem_outside_run:
  "\<exists>st'. configure_subsystem S base_row 0 sample_running = Inr st' \<and> fan_mem st' = fan_mem sample_running"
  using configure_subsystem_outside [OF sample_yaml [of PER_FRU] running_inv, where a = 0 and ss = base_subsystem
      and cfg = base_row] by auto

lemma overtemp_safety_run:
  "\<exists>st' es. configure_subsystem S base_row 0 sample_running = Inr st' \<and>
    io st' = io sample_running @ FanSpeedEvent ''base'' ''MAX'' 21 #
      speed_writes S [''base''] (sample_info PER_FRU) ''base'' 21 @ es"
proof -
  have "\<lparr>ts_fan_state = Some ''max''\<rparr> \<in> set (os_temp_sensors base_row)"
    by (simp add: base_row_def sample_subsystem_def)
  from overtemp_safety [OF sample_yaml [of PER_FRU] running_inv _ this, where a = 0 and ss = base_subsystem
      and info = "sample_info PER_FRU"]
  show ?thesis by (auto simp: sample_info_def)
qed

lemma read_status_mirrors_run:
  "post {SignedOverflow} (\<lambda>st'. map of_name (idl_fans (idl st')) = [''base-1L'', ''base-1R'', ''base-2L''])
    (fand_read_status S sample_running)"
  by (rule post_weaken [OF read_status_mirrors [OF sample_shash sample_yaml sample_commits running_inv running_rows]])
    (simp_all add: base_idl_def base_fan_row_def)

definition stray :: "((string \<times> addr) list, string list, nat \<Rightarrow> u32) fand" where
  "stray = sample_running\<lparr>idl := base_idl\<lparr>idl_fans := [base_fan_row 9 ''9X'']\<rparr>\<rparr>"

lemma read_status_unknown_row_run:
  "fand_read_status S stray = Inl NullDeref \<or> fand_read_status S stray = Inl SignedOverflow"
proof -
  have "fand_inv S stray" using running_inv by (simp add: stray_def)
  moreover have "base_fan_row 9 ''9X'' \<in> set (idl_fans (idl stray))"
    and "of_name (base_fan_row 9 ''9X'') \<notin> fst ` set (shash_nodes S (fan_data stray))"
    by (simp_all add: stray_def base_fan_row_def)
  ultimately show ?thesis by (rule read_status_unknown_row [OF sample_shash sample_yaml])
qed

text \<open>A reading of unchanged hardware: three rows show it already, and the daemon's row has been set.\<close>

definition settled_idl :: ovsdb_idl where
  "settled_idl = base_idl\<lparr>idl_fans := [base_fan_row 1 ''1L'', base_fan_row 2 ''1R'',
     (base_fan_row 3 ''2L'')\<lparr>of_direction := ''f2b''\<rparr>]\<rparr>"

lemma read_status_quiet_run:
  "\<exists>st'. fand_read_status S (sample_running\<lparr>idl := settled_idl, cur_hw_set := True\<rparr>) = Inr st' \<and> idl st' = settled_idl \<and>
    length (idl_fans settled_idl) = 3 \<and> ''ops-fand'' \<in> od_name ` set (idl_daemons settled_idl)"
proof -
  let ?st = "sample_running\<lparr>idl := settled_idl, cur_hw_set := True\<rparr>"
  have inv: "fand_inv S ?st" using running_inv by simp
  have "case fand_read_status S ?st of Inl e \<Rightarrow> False
    | Inr st' \<Rightarrow> map (mirror S st') (idl_fans (idl ?st)) = idl_fans (idl ?st)" by code_simp
  then obtain st' where run: "fand_read_status S ?st = Inr st'"
    and rows: "map (mirror S st') (idl_fans (idl ?st)) = idl_fans (idl ?st)" by (auto split: sum.splits)
  have "cur_hw_set ?st \<or> ''ops-fand'' \<notin> od_name ` set (idl_daemons (idl ?st))" by simp
  from read_status_quiet [OF sample_shash sample_yaml inv run rows this] run show ?thesis
    by (simp add: settled_idl_def base_idl_def sample_idl_def)
qed

lemma cur_hw_once_run:
  "\<exists>st'. fand_read_status S sample_running = Inr st' \<and> cur_hw_set st' \<and>
    idl_daemons (idl st') = [\<lparr>od_name = ''ops-fand'', od_cur_hw = 1\<rparr>]"
proof -
  have "\<not> isl (fand_read_status S sample_running)" by code_simp
  then obtain st' where run: "fand_read_status S sample_running = Inr st'" by (cases "fand_read_status S sample_running") auto
  have "idl_daemons (idl sample_running) = [] @ \<lparr>od_name = ''ops-fand'', od_cur_hw = 0\<rparr> # []"
    by (simp add: base_idl_def sample_idl_def)
  from cur_hw_once [OF sample_shash sample_yaml sample_commits running_inv run this] run show ?thesis by simp
qed

section \<open>Instances: the daemon\<close>

lemma dump_sections_run:
  "fand_unixctl_dump S sample_running = Inr (subsystem_text S sample_running base_subsystem)"
  using dump_sections [OF running_inv, of PER_FRU] by simp

text \<open>
  From the start of the program: one turn tries to add the only subsystem of the database, whose
  description cannot be loaded, and drops it again.
\<close>

definition first_state :: "((string \<times> addr) list, string list, nat \<Rightarrow> u32) fand" where
  "first_state = fand_init S [] (sample_idl [] 0) sample_start"

lemma first_start: "process_start S (Running first_state)"
  unfolding process_start_def first_state_def
  using platform_sample
  by (intro conjI exI [of _ "[]"] exI [of _ "sample_idl [] 0"] exI [of _ sample_start])
    (simp_all add: program_start_def no_blocks_def sample_start_def)

lemma first_turn:
  "\<exists>st'. main_turn S (sample_idl [other_row] 1) [] first_state = Inr (st', [], False, main_wait False) \<and>
    yaml_handle st' = [] \<and> subsystem_data st' = [] \<and> next_addr st' = 1"
proof -
  have "case main_turn S (sample_idl [other_row] 1) [] first_state of
      Inl e \<Rightarrow> False
    | Inr (st', replies, exiting, wakes) \<Rightarrow> replies = [] \<and> exiting = False \<and> wakes = main_wait False \<and>
        yaml_handle st' = [] \<and> subsystem_data st' = [] \<and> next_addr st' = 1"
    by code_simp
  then show "\<exists>st'. main_turn S (sample_idl [other_row] 1) [] first_state = Inr (st', [], False, main_wait False) \<and>
      yaml_handle st' = [] \<and> subsystem_data st' = [] \<and> next_addr st' = 1" by (auto split: sum.splits)
qed

lemma daemon_safe_run:
  "\<exists>st'. main_step S (Running first_state) (sample_idl [other_row] 1, [], [], main_wait False) (Running st') \<and>
    fand_inv S st' \<and> next_addr st' = 1"
proof -
  from first_turn obtain st' where turn: "main_turn S (sample_idl [other_row] 1) [] first_state = Inr (st', [], False, main_wait False)"
    and n: "next_addr st' = 1" by auto
  from main_step.turn [OF turn] have step: "main_step S (Running first_state) (sample_idl [other_row] 1, [], [], main_wait False) (Running st')" .
  have "reach (process_start S) (main_step S) (Running st')"
    using reach.start [of "process_start S", OF first_start] step by (rule reach.step)
  from daemon_safe [OF this] n step show ?thesis by auto
qed

lemma first_inv: "daemon_inv S first_state"
  unfolding first_state_def
  by (rule fand_init_inv [OF sample_shash]) (simp add: program_start_def no_blocks_def sample_start_def)

text \<open>A Fan row that the daemon did not create crashes the next turn.\<close>

definition stray_idl :: ovsdb_idl where
  "stray_idl = (sample_idl [] 0)\<lparr>idl_fans := [base_fan_row 9 ''9X'']\<rparr>"

lemma null_only_from_unknown_row_run:
  "fand_run S stray_idl first_state = Inl NullDeref \<and>
   (\<exists>st1. fand_reconfigure S (first_state\<lparr>idl := stray_idl\<rparr>) = Inr st1 \<and>
      ''base-9X'' \<notin> fst ` set (shash_nodes S (fan_data st1)))"
proof -
  have "case fand_run S stray_idl first_state of Inl e \<Rightarrow> e = NullDeref | Inr st \<Rightarrow> False" by code_simp
  then have run: "fand_run S stray_idl first_state = Inl NullDeref" by (auto split: sum.splits)
  have "distinct (map os_name (idl_subsystems stray_idl))" by (simp add: stray_idl_def sample_idl_def)
  from null_only_from_unknown_row [OF platform_sample sample_insert sample_atomic first_inv this run] run
  show ?thesis by (auto simp: stray_idl_def base_fan_row_def)
qed

text \<open>A turn of the running daemon, without a change of the configuration, on rows that are out of date.\<close>

lemma running_daemon_inv: "daemon_inv S sample_running"
  using running_inv by (simp add: daemon_inv_def base_fan_def fan_wf_def)

text \<open>The subsystem of the running daemon is removed from the database, and its Fan rows stay.\<close>

lemma removed_subsystem_crashes_run:
  "fand_run S (base_idl\<lparr>idl_subsystems := []\<rparr>) sample_running = Inl NullDeref \<or>
   fand_run S (base_idl\<lparr>idl_subsystems := []\<rparr>) sample_running = Inl SignedOverflow"
proof -
  let ?i = "base_idl\<lparr>idl_subsystems := []\<rparr>"
  have 1: "locked ?i" "idl_get_seqno ?i \<noteq> idl_seqno sample_running" "distinct (map os_name (idl_subsystems ?i))"
    "names_known (idl_subsystems ?i) sample_running"
    by (simp_all add: base_idl_def sample_idl_def locked_def names_known_def)
  have 2: "fan_mem sample_running 1 = Some (base_fan 1 ''1L'')"
    "subsys_mem sample_running (subsystem (base_fan 1 ''1L'')) = Some base_subsystem"
    "ls_name base_subsystem \<notin> os_name ` set (idl_subsystems ?i)" by simp_all
  have 3: "base_fan_row 1 ''1L'' \<in> set (idl_fans ?i)" "of_name (base_fan_row 1 ''1L'') = lf_name (base_fan 1 ''1L'')"
    by (simp_all add: base_idl_def base_fan_row_def)
  show ?thesis by (rule removed_subsystem_crashes [OF platform_sample running_daemon_inv 1 2 3])
qed

definition stale_idl :: ovsdb_idl where
  "stale_idl = base_idl\<lparr>idl_get_seqno := 1, idl_fans := map (\<lambda>r. r\<lparr>of_status := ''fault'', of_rpm := None\<rparr>) (idl_fans base_idl)\<rparr>"

lemma fan_rows_typed_run:
  "\<exists>st'. fand_run S stale_idl sample_running = Inr st' \<and> idl_typed (idl st')"
proof -
  have "case fand_run S stale_idl sample_running of Inl e \<Rightarrow> False | Inr st \<Rightarrow> True" by code_simp
  then obtain st' where run: "fand_run S stale_idl sample_running = Inr st'" by (auto split: sum.splits)
  have "idl_typed stale_idl"
    by (simp add: stale_idl_def base_idl_def base_fan_row_def sample_idl_def idl_typed_def fan_row_typed_def)
  from fan_rows_typed [OF platform_sample sample_insert sample_atomic running_daemon_inv this run] run
  show ?thesis by blast
qed

lemma turn_writes_unalerted_run:
  "\<exists>st'. fand_run S stale_idl sample_running = Inr st' \<and> idl st' \<noteq> stale_idl \<and>
    own_commits S (unalerted fand_init_registration) stale_idl (idl st')"
proof -
  have "case fand_run S stale_idl sample_running of Inl e \<Rightarrow> False
    | Inr st \<Rightarrow> map of_status (idl_fans (idl st)) \<noteq> map of_status (idl_fans stale_idl)" by code_simp
  then obtain st' where run: "fand_run S stale_idl sample_running = Inr st'"
    and rows: "map of_status (idl_fans (idl st')) \<noteq> map of_status (idl_fans stale_idl)"
    by (cases "fand_run S stale_idl sample_running") auto
  from rows have "idl st' \<noteq> stale_idl" by auto
  with turn_writes_unalerted [OF platform_sample running_daemon_inv run] run show ?thesis by blast
qed

lemma unchanged_turn_reads_only_run:
  "\<exists>st' es. fand_run S stale_idl sample_running = Inr st' \<and> io st' = es @ [DaemonizeComplete] \<and>
    (\<forall>n op v. I2cWrite n op v \<notin> set es)"
proof -
  have "case fand_run S stale_idl sample_running of Inl e \<Rightarrow> False | Inr st \<Rightarrow> True" by code_simp
  then obtain st' where run: "fand_run S stale_idl sample_running = Inr st'" by (auto split: sum.splits)
  have seqno: "idl_get_seqno stale_idl = idl_seqno sample_running" by (simp add: stale_idl_def)
  have lock: "locked stale_idl" by (simp add: stale_idl_def base_idl_def sample_idl_def locked_def)
  have "io sample_running = []" by (simp add: sample_running_def sample_start_def)
  with unchanged_turn_reads_only [OF seqno run] lock obtain es where es: "io st' = es" "es \<noteq> []" "last es = DaemonizeComplete"
    "\<forall>e \<in> set es. (\<exists>n op. e = I2cRead n op) \<or> e = CommitEvent \<or> e = DaemonizeComplete" by auto
  then have "es = butlast es @ [DaemonizeComplete]" by (metis append_butlast_last_id)
  moreover have "\<forall>n op v. I2cWrite n op v \<notin> set (butlast es)" using es(4) by (auto dest!: in_set_butlastD)
  ultimately show ?thesis using run es(1) by metis
qed

lemma exit_by_command_run:
  "\<exists>replies. main_step S (Running first_state) (sample_idl [] 0, [DumpCmd, ExitCmd], replies, main_wait True) Exited \<and> length replies = 2 \<and> WakeNow \<in> set (main_wait True)"
proof -
  have "case main_turn S (sample_idl [] 0) [DumpCmd, ExitCmd] first_state of Inl e \<Rightarrow> False | Inr (st, r, e, ws) \<Rightarrow> e \<and> ws = main_wait True" by code_simp
  then obtain st' r where "main_turn S (sample_idl [] 0) [DumpCmd, ExitCmd] first_state = Inr (st', r, True, main_wait True)"
    by (auto split: sum.splits)
  then have step: "main_step S (Running first_state) (sample_idl [] 0, [DumpCmd, ExitCmd], r, main_wait True) Exited" by (rule main_step.turn_exit)
  from exit_by_command [OF platform_sample first_inv this] step show ?thesis by auto
qed

section \<open>Instances: the controller\<close>

text \<open>
  The first turn with the row of \<open>base\<close>, whose description can be loaded. What it does follows from the
  contracts of the operations: it neither overflows nor follows a NULL pointer, and \<open>base\<close> is there.
\<close>

definition base_only :: ovsdb_idl where
  "base_only = sample_idl [base_row] 1"

lemma base_only_simps [simp]:
  "idl_subsystems base_only = [base_row]" "idl_fans base_only = []" "idl_get_seqno base_only = 1" "locked base_only"
  by (simp_all add: base_only_def sample_idl_def locked_def)

lemma base_row_simps [simp]: "os_name base_row = ''base''" "os_uuid base_row = 100"
  by (simp_all add: base_row_def sample_subsystem_def)

lemma base_loadable: "loadable S base_row"
  by (simp add: loadable_def base_row_def sample_subsystem_def described_def)

lemma base_law: "control_law base_row = FAND_SPEED_MAX"
proof -
  have "fan_speed_string_to_enum (Some ''fast'') = FAND_SPEED_FAST" "fan_speed_string_to_enum (Some ''max'') = FAND_SPEED_MAX"
    "fan_speed_string_to_enum None = FAND_SPEED_NONE" by code_simp+
  moreover have "Max {FAND_SPEED_SLOW, FAND_SPEED_FAST, FAND_SPEED_MAX} = FAND_SPEED_MAX" by code_simp
  ultimately show ?thesis by (simp add: control_law_def base_row_def sample_subsystem_def Let_def)
qed

lemma sample_registers: "byte_registers (sample t)"
proof -
  have "unat (ucast (w :: u8) :: u32) < 256" for w
    using unsigned_less [of w, where 'a = nat]
    by (auto simp: unsigned_ucast_eq intro: order.strict_trans1 [OF take_bit_nat_less_eq_self])
  then show ?thesis
    by (auto simp: byte_registers_def sample_read_def split: option.splits if_splits)
qed

lemma sample_factors: "factors_ok (sample t)"
  by (simp add: factors_ok_def sample_info_def)

lemma first_simps [simp]:
  "idl_seqno first_state = 0" "subsys_mem first_state = Map.empty" "fan_mem first_state = Map.empty"
  by (simp_all add: first_state_def fand_init_def init_subsystems_def sample_start_def sample_idl_def)

lemma base_turn:
  "\<exists>st' a ss. fand_run S base_only first_state = Inr st' \<and> subsys_mem st' a = Some ss \<and> ls_name ss = ''base'' \<and> valid ss"
proof -
  let ?st = "first_state\<lparr>idl := base_only\<rparr>"
  have inv: "fand_inv S ?st" using first_inv by (simp add: daemon_inv_def)
  have pre: "distinct (map os_name (idl_subsystems (idl ?st)))" "idl_get_seqno (idl ?st) \<noteq> idl_seqno ?st" by simp_all
  from post_total [OF fand_reconfigure_changed [OF sample_shash sample_yaml sample_names inv pre]] obtain st1
    where 1: "fand_reconfigure S ?st = Inr st1" and r: "reconfigured S ?st st1" by blast
  then have inv1: "fand_inv S st1" by (simp add: reconfigured_def)
  from r base_loadable obtain a ss where ss: "subsys_mem st1 a = Some ss" "ls_name ss = ''base''" "valid ss"
    by (auto simp: reconfigured_def)
  have "rows_known S st1"
    unfolding rows_known_def
    using reconfigure_fan_rows [OF sample_shash sample_yaml sample_names sample_insert sample_atomic inv pre(1) _ 1]
    by fastforce
  with fand_read_status_post [OF sample_shash sample_yaml inv1]
  have read: "post {SignedOverflow} (status_read S st1) (fand_read_status S st1)" by simp
  have "all_scalable S first_state" by (simp add: all_scalable_def each_valid_def all_valid_def)
  from fand_run_bounded [OF platform_sample sample_registers sample_factors first_inv this, of base_only]
  have "fand_run S base_only first_state \<noteq> Inl SignedOverflow" by auto
  with read 1 obtain st2 where 2: "fand_read_status S st1 = Inr st2" "status_read S st1 st2"
    by (cases "fand_read_status S st1") (auto simp: fand_run_locked)
  with 1 have "fand_run S base_only first_state = Inr (log_io DaemonizeComplete st2)" by (simp add: fand_run_locked)
  moreover have "subsys_mem (log_io DaemonizeComplete st2) a = Some ss" using 2(2) ss(1) by (simp add: status_read_def)
  ultimately show ?thesis using ss(2,3) by blast
qed

abbreviation base_label :: "ovsdb_idl \<times> unixctl_command list \<times> string option list \<times> wake list" where
  "base_label \<equiv> (base_only, [], [], main_wait False)"

lemma base_step:
  "\<exists>st' a ss. restrict unique_names (main_step S) (Running first_state) base_label (Running st') \<and>
    subsys_mem st' a = Some ss \<and> ls_name ss = ''base'' \<and> valid ss"
proof -
  from base_turn obtain st' a ss where run: "fand_run S base_only first_state = Inr st'"
    and ss: "subsys_mem st' a = Some ss" "ls_name ss = ''base''" "valid ss" by blast
  then have "main_turn S base_only [] first_state = Inr (st', [], False, main_wait False)" by (simp add: main_turn_def)
  from main_step.turn [OF this] have "restrict unique_names (main_step S) (Running first_state) base_label (Running st')"
    by (intro restrictI) (simp_all add: unique_names_def)
  with ss show ?thesis by blast
qed

lemma daemon_refines_controller_run:
  "\<exists>st'. runs ctl_init ctl_step [turn_of S base_label] (Control (idl_seqno st') (levels S st')) \<and>
    (\<exists>a ss. subsys_mem st' a = Some ss \<and> ls_name ss = ''base'')"
proof -
  from base_step obtain st' a ss where step: "restrict unique_names (main_step S) (Running first_state) base_label (Running st')"
    and ss: "subsys_mem st' a = Some ss" "ls_name ss = ''base''" by blast
  have "runs (process_start S) (restrict unique_names (main_step S)) ([] @ [base_label]) (Running st')"
  proof (rule runs.step)
    show "runs (process_start S) (restrict unique_names (main_step S)) [] (Running first_state)"
      by (rule runs.start) (rule first_start)
  qed (rule step)
  from daemon_refines_controller [OF this] ss show ?thesis by (auto simp: controller_of_def)
qed

lemma fans_follow_database_run:
  "\<exists>st' a ss pre after. main_step S (Running first_state) base_label (Running st') \<and>
    subsys_mem st' a = Some ss \<and> ls_name ss = ''base'' \<and> speed ss = FAND_SPEED_MAX \<and>
    io st' = pre @ [FanSpeedEvent ''base'' ''MAX'' 21] @
      [I2cWrite ''base'' (Some 61) 21, I2cWrite ''base'' (Some 62) 21] @ after"
proof -
  let ?rho = "\<lambda>n :: nat. [(''base'', FAND_SPEED_MAX)]"
  let ?step = "restrict (\<lambda>l. answers ?rho (turn_of S l)) (restrict unique_names (main_step S))"
  from base_step obtain st' a ss where step: "restrict unique_names (main_step S) (Running first_state) base_label (Running st')"
    and ss: "subsys_mem st' a = Some ss" "ls_name ss = ''base''" "valid ss" by blast
  have "answers ?rho (turn_of S base_label)" by (simp add: answers_def turn_of_def rows_turn_def base_law)
  with step have "?step (Running first_state) base_label (Running st')" by (rule restrictI [rotated])
  then have "reach (process_start S) ?step (Running st')"
    by (rule reach.step [OF reach.start [of "process_start S", OF first_start]])
  from fans_follow_database [OF this ss(1,3)] obtain info label v pre after
    where sp: "speed ss = FAND_SPEED_MAX" and info: "yaml_get_fan_info S (yaml_handle st') ''base'' = Some info"
      and set: "fand_speed_setting info (speed ss) = (label, v)"
      and io: "io st' = pre @ [FanSpeedEvent ''base'' label v] @ speed_writes S (yaml_handle st') info ''base'' v @ after"
    by (auto simp: ss(2))
  from info have i: "info = sample_info PER_FRU" "described (yaml_handle st') ''base''" by (auto split: if_splits)
  with set sp have "label = ''MAX''" "v = 21" by (simp_all add: fand_speed_setting_def sample_info_def)
  with io i have "io st' = pre @ [FanSpeedEvent ''base'' ''MAX'' 21] @
      [I2cWrite ''base'' (Some 61) 21, I2cWrite ''base'' (Some 62) 21] @ after"
    by (simp add: speed_writes_def sample_info_def sample_frus_def opt_write_def upt_rec)
  with ss sp show ?thesis
    by (intro exI [of _ st'] exI [of _ a] exI [of _ ss] exI [of _ pre] exI [of _ after])
      (simp add: restrictD(2) [OF step])
qed

text \<open>The row that is not the daemon's again, as a reachable crash.\<close>

lemma no_overflow_run:
  "\<exists>e. reach (process_start S) (restrict unique_names (main_step S)) (Crashed e) \<and> e = NullDeref"
proof -
  have "case fand_run S stray_idl first_state of Inl e \<Rightarrow> True | Inr st \<Rightarrow> False" by code_simp
  then obtain e where "fand_run S stray_idl first_state = Inl e" by (auto split: sum.splits)
  then have "main_turn S stray_idl [] first_state = Inl e" by (simp add: main_turn_def)
  from main_step.turn_crash [OF this]
  have "restrict unique_names (main_step S) (Running first_state) (stray_idl, [], [], []) (Crashed e)"
    by (intro restrictI) (simp_all add: unique_names_def stray_idl_def sample_idl_def)
  with first_start have "reach (process_start S) (restrict unique_names (main_step S)) (Crashed e)"
    by (intro reach.step [OF reach.start [of "process_start S"]])
  with no_overflow [OF sample_registers sample_factors this] show ?thesis by blast
qed

lemma fans_column_run:
  "\<exists>a st' row. add_subsystem S base_row (first_state\<lparr>idl := base_only\<rparr>) = Inr (Some a, st') \<and>
    row \<in> set (idl_subsystems (idl st')) \<and> length (os_fans row) = 3 \<and> distinct (os_fans row)"
proof -
  let ?st = "first_state\<lparr>idl := base_only\<rparr>"
  have inv: "fand_inv S ?st" using first_inv by (simp add: daemon_inv_def)
  have fresh: "os_name base_row \<notin> fst ` set (shash_nodes S (subsystem_data ?st))"
    by (simp add: first_state_def fand_init_def init_subsystems_def)
  have d: "distinct (map of_uuid (idl_fans (idl ?st)))" by simp
  from post_total [OF add_subsystem_post [OF sample_shash sample_yaml sample_names inv fresh]] obtain r st'
    where run: "add_subsystem S base_row ?st = Inr (r, st')" and x: "subsys_added S base_row ?st (r, st')" by fast
  let ?fans = "yaml_fans S (yaml_handle st') ''base''"
  obtain us i where rows: "init_rows S (full_names ''base'' ?fans) base_only = (us, i)" by fastforce
  from x base_loadable obtain a where r: "r = Some a" and y: "described (yaml_handle st') ''base''"
    and idl: "idl st' = set_subsystem_fans 100 us i"
    by (auto simp: subsys_added_def Let_def fan_rows_staged_def rows split: if_splits)
  have "distinct (full_names ''base'' ?fans)"
    using sample_names by (intro distinct_full_names) (auto simp: fan_names_ok_def)
  from init_rows_listed [OF sample_insert _ this rows] have "idl_subsystems i = [base_row]" by simp
  then have row: "base_row\<lparr>os_fans := us\<rparr> \<in> set (idl_subsystems (idl st'))" by (simp add: idl set_subsystem_fans_def)
  have "os_uuid (base_row\<lparr>os_fans := us\<rparr>) = os_uuid base_row" by simp
  from fans_column [OF sample_shash sample_yaml sample_names sample_insert sample_commits inv fresh d run [unfolded r] row this]
  have "length us = length ?fans" "distinct us" by (auto dest: list_all2_lengthD)
  moreover have "length ?fans = 3" using y by (simp add: sample_yaml_fans)
  ultimately show ?thesis using run row by (intro exI [of _ a] exI [of _ st'] exI [of _ "base_row\<lparr>os_fans := us\<rparr>"]) (simp add: r)
qed

section \<open>Instances: the start of the program\<close>

text \<open>
  A library with one option for the daemon, \<open>--detach\<close>, and one for logging, \<open>--verbose\<close> or \<open>-v\<close>; its
  state is the list of what was set up.
\<close>

definition sample_options :: "string list ovs_options" where
  "sample_options = \<lparr>daemon_long_options = [fand_option ''detach'' no_argument 259],
     vlog_long_options = [fand_option ''verbose'' optional_argument 118], stream_ssl_long_options = [],
     vlog_option_enums = 0, daemon_option_enums = 1,
     option_handlers = [259 \<mapsto> \<lambda>v env. Inr (env @ [''detach'']), 118 \<mapsto> \<lambda>v env. Inr (env @ [''verbose''])],
     long_options_to_short_options = (\<lambda>os. ''hVv::''), posixly_correct = False,
     stream_ssl_set_peer_ca_cert_file = (\<lambda>v env. env), stream_ssl_set_ca_cert_file = (\<lambda>v b env. env),
     ovs_version_text = ''1.0'', stream_usage = (\<lambda>n a b c. []), daemon_usage = [], vlog_usage = [],
     ovs_rundir = ''/run'', program_name = ''ops-fand''\<rparr>"

definition sample_words :: "cmd_word list" where
  "sample_words = [Short [] CHR ''v'' No_arg, Operand ''tcp:db'', Long ''unixctl'' (Separate ''ctl''), Long ''det'' No_arg]"

lemmas sample_options_defs = sample_options_def long_options_def fand_option_def OPT_UNIXCTL_def OPT_PEER_CA_CERT_def
  OPT_BOOTSTRAP_CA_CERT_def match_long_def short_option_def

lemma sample_line:
  "line_args sample_words End = [''-v'', ''tcp:db'', ''--unixctl'', ''ctl'', ''--det'']"
  "line_operands sample_words End = [''tcp:db'']"
  by (simp_all add: sample_words_def line_args_def line_operands_def)

lemma sample_line_ok:
  "line_ok (posixly_correct sample_options) (short_options sample_options) (long_options sample_options) sample_words End"
  by (simp add: sample_words_def line_ok_def is_option_def is_flag_def sample_options_defs)

lemma sample_line_handled:
  "foreach (option_switch sample_options) (line_items (short_options sample_options) (long_options sample_options)
     sample_words End) (None, []) = Inr (Some ''ctl'', [''verbose'', ''detach''])"
  by (simp add: sample_words_def line_items_def flag_items_def option_switch_def getopt_error_def sample_options_defs)

lemma parse_options_words_run:
  "parse_options sample_options [''-v'', ''tcp:db'', ''--unixctl'', ''ctl'', ''--det''] (None, []) =
    Some (Inr (''tcp:db'', Some ''ctl'', [''verbose'', ''detach'']))"
proof -
  have "parse_options sample_options (line_args sample_words End) (None, []) =
      Some (Inr (''tcp:db'', Some ''ctl'', [''verbose'', ''detach'']))"
    using conjunct2 [OF parse_options_words [of sample_options "line_args sample_words End" "(None, [])"],
        rule_format, of sample_words End] sample_line_ok
    by (simp add: sample_line(2) sample_line_handled)
  then show ?thesis by (simp only: sample_line(1))
qed

lemma sample_options_ok: "ovs_options_ok sample_options"
proof -
  have "of_char c \<in> lo_val ` set (long_options sample_options)" if "short_option ''hVv::'' c = Some h" for c h
    using that by (auto simp: short_option_def sample_options_def long_options_def fand_option_def split: if_splits)
  moreover have "long_options_to_short_options sample_options os = ''hVv::''" for os
    by (simp add: sample_options_def)
  moreover have "\<forall>e \<in> set (daemon_long_options sample_options @ vlog_long_options sample_options @
      stream_ssl_long_options sample_options). option_handlers sample_options (lo_val e) \<noteq> None"
    by (simp add: sample_options_def fand_option_def)
  moreover have "h v env \<noteq> Inl Abort" if "option_handlers sample_options c = Some h" for c h v env
    using that by (auto simp: sample_options_def split: if_splits)
  ultimately show ?thesis unfolding ovs_options_ok_def by simp
qed

lemma parse_options_never_aborts_run: "parse_options sample_options [''--no-such''] (None, []) \<noteq> Some (Inl Abort)"
  by (rule parse_options_never_aborts [OF sample_options_ok])

definition sample_libs :: "string list fand_libs" where
  "sample_libs = \<lparr>unixctl_server_create = (\<lambda>path. 0), yaml_new_config_handle = [],
     ovsdb_idl_create = (\<lambda>remote. sample_idl [] 0)\<rparr>"

lemma main_enters_loop_run:
  "main_start S sample_options sample_libs [''-v'', ''tcp:db'', ''--unixctl'', ''ctl'', ''--det''] [] sample_start =
    Some (Inr first_state)"
proof -
  have "program_start sample_start" by (simp add: program_start_def no_blocks_def sample_start_def)
  from main_enters_loop [where E = sample_libs and env = "[]", OF platform_sample [of PER_FRU] this sample_line_ok] show ?thesis
    by (simp add: sample_line sample_line_handled sample_libs_def first_state_def)
qed

lemma main_life_run:
  "\<exists>calls s. main_prog S sample_options sample_libs ''ops-fand'' [''--detach''] [] [(sample_idl [] 0, [DumpCmd, ExitCmd])] sample_start =
      Some (calls, Returned 0) \<and> lib_calls calls lib_start = Some s \<and> idl_phase s = Gone"
proof -
  let ?es = "[(sample_idl [] 0, [DumpCmd, ExitCmd])]" and ?remote = "''unix:'' @ ovs_rundir sample_options @ ''/db.sock''"
  have "parse_options sample_options (line_args [Long ''detach'' No_arg] End) (None, []) =
      Some (Inr (?remote, None, [''detach'']))"
    by (subst parse_options_line) (simp_all add: line_ok_def line_items_def line_operands_def options_remote_def
        option_switch_def getopt_error_def sample_options_defs)
  then have parse: "parse_options sample_options [''--detach''] (None, []) = Some (Inr (?remote, None, [''detach'']))"
    by (simp add: line_args_def)
  have "case main_loop S ?es first_state of (_, Inl f) \<Rightarrow> False | (_, Inr (_, exited)) \<Rightarrow> exited" by code_simp
  then obtain lp st' where loop: "main_loop S ?es first_state = (lp, Inr (st', True))"
    by (auto split: prod.splits sum.splits)
  define calls where "calls = fst (the (main_prog S sample_options sample_libs ''ops-fand'' [''--detach''] [] ?es sample_start))"
  have run: "main_prog S sample_options sample_libs ''ops-fand'' [''--detach''] [] ?es sample_start = Some (calls, Returned 0)"
    using loop unfolding calls_def by (simp add: main_prog_def parse sample_libs_def first_state_def main_end_def)
  have "program_start sample_start" by (simp add: program_start_def no_blocks_def sample_start_def)
  from main_life [OF platform_sample this run] run show ?thesis by auto
qed

section \<open>Instances: the shell\<close>

lemma fan_speed_commands_run:
  "snd (vtysh_fan_speed sample_shell ''fast'' base_idl) = with_override ''fan_speed_override'' (Some ''fast'') base_idl"
proof -
  have "fst (vtysh_fan_speed sample_shell ''fast'' base_idl) = CMD_SUCCESS"
    by (simp add: vtysh_fan_speed_def vtysh_ovsdb_fan_speed_set_def sample_shell_def base_idl_def sample_idl_def)
  with fan_speed_commands [OF sample_shell_ok(1,2), of "''fast''" base_idl] show ?thesis
    by (auto split: prod.splits)
qed

lemma sample_commands:
  "vtysh_fan_speed sample_shell w base_idl = (CMD_SUCCESS, with_override ''fan_speed_override'' (Some w) base_idl)"
  "vtysh_fan_speed sample_shell w (with_override ''fan_speed_override'' v base_idl) =
     (CMD_SUCCESS, with_override ''fan_speed_override'' (Some w) base_idl)"
  "vtysh_no_fan_speed sample_shell (with_override ''fan_speed_override'' v base_idl) =
     (CMD_SUCCESS, with_override ''fan_speed_override'' None base_idl)"
  by (simp_all add: vtysh_fan_speed_def vtysh_no_fan_speed_def vtysh_ovsdb_fan_speed_set_def sample_shell_def
      with_override_def base_idl_def sample_idl_def)

lemma fan_speed_undo_run:
  "snd (vtysh_no_fan_speed sample_shell (snd (vtysh_fan_speed sample_shell ''max'' base_idl))) = base_idl"
proof -
  have none: "os_other_config base_row ''fan_speed_override'' = None" "idl_subsystems base_idl = [base_row]"
    by (simp_all add: base_row_def sample_subsystem_def base_idl_def sample_idl_def)
  from fan_speed_undo [OF sample_shell_ok(1,2) sample_commands(1) [of "''max''"]
      sample_commands(2) [of "''slow''" "Some ''max''"] sample_commands(3) [of "Some ''max''"]]
  have "with_override ''fan_speed_override'' None base_idl = base_idl" using none by simp
  then show ?thesis by (simp add: sample_commands)
qed

lemma show_without_rpm_run:
  "vtysh_show_system_fan sample_shell (base_idl\<lparr>idl_fans := [(base_fan_row 1 ''1L'')\<lparr>of_rpm := None\<rparr>]\<rparr>) = Inl NullDeref"
  by (rule show_without_rpm [OF sample_shell_ok(3), of _ "(base_fan_row 1 ''1L'')\<lparr>of_rpm := None\<rparr>"])
    (simp_all add: base_idl_def sample_idl_def)

lemma dec_int_5000: "dec_int 5000 = ''5000''"
  by (simp add: dec_int_def dec_nat.simps char_of_def bit_0)

lemma show_columns_run:
  "\<exists>l. show_fan sample_shell (base_fan_row 1 ''1L'') (0, []) = Inr (5000, l @ ''\<newline>'') \<and>
    fan_columns l = (''base-1L'', ''max'', ''back-to-front'', ''ok'', 5000)"
  using show_columns [OF sample_shell_ok(3), of "base_fan_row 1 ''1L''" 5000 0 "[]"]
  by (simp add: base_fan_row_def dec_int_5000) (simp add: sample_shell_def)

lemma running_config_reload_run:
  "load_config (snd (vtysh_config_context_fan_clientcallback sample_shell
      (with_override ''fan_speed_override'' (Some ''normal'') base_idl) [])) base_idl = Some base_idl"
proof -
  have none: "with_override ''fan_speed_override'' None base_idl = base_idl"
    by (rule with_override_same) (simp add: base_row_def sample_subsystem_def base_idl_def sample_idl_def)
  have o: "override_of (with_override ''fan_speed_override'' (Some ''normal'') base_idl) = Some ''normal''"
    by (simp add: override_of_with_override base_idl_def sample_idl_def)
  then have "override_of (with_override ''fan_speed_override'' (Some ''normal'') base_idl) \<in> insert None (Some ` set fan_speed_words)"
    by (simp add: fan_speed_words_def)
  from running_config_reload [OF sample_shell_ok(1) this] show ?thesis by (simp add: o none)
qed

end
