(* ===== verification/Spec2Isabelle.thy ===== *)
theory Spec2Isabelle
  imports Examples
begin

text \<open>
  A model of the OpenSwitch fan daemon \<open>ops-fand\<close> and of its commands in the \<open>vtysh\<close> shell.

  \<^bold>\<open>The program.\<close> The daemon (\<open>src/fand.c\<close>) keeps one record per subsystem and one per fan. It watches
  the OVSDB tables Subsystem and Temp_sensor. When the database changes (\<open>fand_reconfigure\<close>), it adds
  the subsystems it does not know, which loads their hardware description, gives every subsystem the
  speed that its sensors and the configured override ask for, sets the LEDs, and frees the subsystems
  that are gone. In every turn of the main loop it reads all fans (\<open>fand_read_status\<close>) and writes the
  rows of the Fan table that differ. The hardware is reached in \<open>src/physfan.c\<close>, through I2C operations
  that the hardware description names. The shell commands (\<open>src/cli\<close>) write the override into the
  Subsystem table, show the Fan table, and print the override for \<open>show running-config\<close>.

  \<^bold>\<open>The theories\<close>, in the order of their imports:
  \<^item> \<open>Prelude\<close>: C's undefined behaviours as the values of the type \<open>fault\<close>; a C operation returns
    \<open>fault + 'a\<close>. Sequencing, for-each loops, the predicate \<open>post F Q r\<close> (a fault of \<open>F\<close> or a result with
    \<open>Q\<close>) with one rule per construct, and \<open>int\<close> arithmetic on 32-bit words.
  \<^item> \<open>Enum_Table\<close>, \<open>Fanspeed\<close>, \<open>Fandirection\<close>, \<open>Fanstatus\<close>: the enums of \<open>include/fan*.h\<close> and the
    name tables of \<open>src/fan*.c\<close>. The locale \<open>enum_table\<close> is what a client of such a table relies on.
  \<^item> \<open>Platform\<close>: the code that is not in the repository, as the argument \<open>P\<close> of the definitions: \<open>shash\<close>,
    the yaml hardware description library, I2C, the OVSDB client, \<open>malloc\<close>. Its documented behaviour is
    named by \<open>shash_ok\<close>, \<open>yaml_ok\<close>, \<open>fan_names_ok\<close>, \<open>fan_insert_ok\<close>; two cases of a commit are
    \<open>commit_atomic\<close> (a transaction leaves all of its writes or none) and \<open>commits\<close> (it leaves all).
  \<^item> \<open>Fand_State\<close>: the structures of \<open>include/fand-locl.h\<close> and the globals of \<open>fand.c\<close> in one record
    \<open>fand\<close>, with a heap: pointers are addresses, and an address that was freed is undefined. The field
    \<open>io\<close> is the trace of bus accesses, logged events, commits and calls of \<open>daemonize_complete\<close>. The locale \<open>hw_op\<close> is the contract
    that \<open>fand.c\<close> relies on when it calls an operation of \<open>physfan.h\<close>: which faults it can have, which
    blocks it leaves alone, and what it is specified to do.
  \<^item> \<open>Physfan_Speed\<close>, \<open>Physfan_Leds\<close>, \<open>Physfan_Read\<close>: \<open>physfan.c\<close>. Each theory specifies what is
    written to the bus, from the description and the cached state alone, proves that the code does
    exactly this, and interprets \<open>hw_op\<close> on its operation.
  \<^item> \<open>Subsystems\<close>: \<open>add_subsystem\<close>, \<open>get_subsystem\<close>, marking and sweeping. \<open>Fand_Inv\<close>: the invariant
    \<open>fand_inv\<close> (tables list exactly the live blocks, names are keys, links lead to live blocks, fans are
    described by the loaded description). \<open>Subsystems_Sweep\<close>, \<open>Subsystems_Add\<close>: what the operations do
    to it and to everything else.
  \<^item> \<open>Fand_Reconfigure\<close>, \<open>Fand_Status\<close>, \<open>Fand_Dump\<close>: \<open>fand_reconfigure\<close>, \<open>fand_read_status\<close> and the support
    dump. \<open>Fand_Rows\<close>: what the first two do to the rows of the Fan table, and the types of their values.
    The locale \<open>column\<close> is the accessor interface of a database column.
  \<^item> \<open>Transitions\<close>: labelled transition systems, their reachable states and runs. The locale
    \<open>invariant_system\<close> is an inductive invariant, the locale \<open>refinement\<close>, which extends it, a refinement
    mapping to a more abstract system.
  \<^item> \<open>Fand_Daemon\<close>: the main loop as the step relation \<open>main_step\<close>, whose environment chooses the replica
    and the control commands of every turn; a turn ends with the list of the events it waits for.
  \<^item> \<open>Fand_Columns\<close>: the columns that the transactions of a turn write, against those that \<open>fand_init\<close>
    registers with an alert. It assumes nothing of what a commit makes of its transaction.
  \<^item> \<open>Fand_Trace\<close>: what the operations add to the trace. \<open>Block_Property\<close>: the contract of a property that
    every turn keeps for each valid subsystem, as the locale \<open>block_property\<close>.
  \<^item> \<open>Fand_Control\<close>: the abstract specification of the daemon, a \<open>controller\<close> that holds a level per
    subsystem name and adopts the \<open>control_law\<close> of the rows, the \<open>refinement\<close> of it by the main loop, and
    \<open>speed_in_force\<close>, an instance of \<open>block_property\<close>: the last speed command in the trace is the one of
    the subsystem's level. \<open>Fand_Bounds\<close>: the absence of overflows on a platform with \<open>byte_registers\<close>
    and \<open>factors_ok\<close>, from the instance of \<open>block_property\<close> that the scaling factors are the description's.
  \<^item> \<open>Fand_Stale\<close>: what happens to a daemon whose database keeps the Fan rows of a removed subsystem.
  \<^item> \<open>Getopt\<close>, \<open>Command_Line\<close>, \<open>Fand_Options\<close>, \<open>Fand_Main\<close>: \<open>getopt_long\<close> of the C library, the grammar of
    command lines, \<open>parse_options\<close> with its option table and \<open>usage\<close>, and \<open>main\<close> up to its loop. Every argument
    vector is a line of the grammar (\<open>line_exists\<close>), so what is shown of lines is shown of every command
    line: with or without \<open>--\<close>, in POSIX order or not, malformed or not. The locale \<open>option_scanner\<close> is what the loop over the
    options relies on. What the option macros of Open vSwitch expand to is the
    argument \<open>L\<close>, with \<open>ovs_options_ok\<close> as their documented behaviour.
  \<^item> \<open>Fand_Process\<close>: \<open>main\<close> from its first line to its \<open>return\<close>, as the calls that it, \<open>fand_init\<close> and
    \<open>fand_exit\<close> make on the libraries around any list of turns. \<open>lib_step\<close> is a specification of the order
    of these calls, not a model of the libraries.
  \<^item> \<open>Printing\<close>, \<open>Fan_Vty\<close>, \<open>Fan_Context\<close>: \<open>printf\<close> fields, the commands of \<open>cli/fan_vty.c\<close> and the
    running configuration of \<open>cli/vtysh_ovsdb_fan_context.c\<close>; the shell is the argument \<open>V\<close>.
  \<^item> \<open>Sample_Platform\<close>, \<open>Examples\<close>: a concrete platform that satisfies all the laws, a concrete daemon
    and shell, and an instance of every property that has hypotheses.

  \<^bold>\<open>What is shown.\<close> Memory safety of the whole daemon life: from the start on no freed block is used,
  and a NULL pointer is followed in one situation only, a Fan row in the database whose fan the daemon
  does not have; with byte registers and scaling factors of a sensible size no \<open>int\<close> overflows either.
  The daemon is a refinement of the controller, for every run of the main loop, and between any two turns
  the speed that the hardware was last told is the level that the database asks for; a turn without a
  change writes nothing to the bus. The exact effect of adding, marking, sweeping and reconfiguring; the exact bus traffic of speed and LED
  settings; over-temperature overriding the configuration; the value of the readings and the bounds
  under which the rpm cannot overflow; that the Fan table mirrors the hardware and is written only on
  change, always with values that the schema admits; the shell's commands down to the speed of the fans,
  and that what the shell shows is what the daemon has read. The option loop ends on every command line,
  never aborts, and handles the options in order wherever the operands are. The process as a whole calls
  its libraries in their order, returns only on an \<open>exit\<close> command and then leaves nothing open; the
  columns that it writes are registered without an alert.

  \<^bold>\<open>Choices.\<close> Loops over tables and lists are structural, so the definitions are total and no fuel is
  needed; the loop over the options is a partial function that is shown to return always. \<open>int\<close> and
  \<open>uint32_t\<close> are 32-bit words, register values 8-bit words. Logging by \<open>VLOG\<close>, and the evaluation of its
  arguments, is left out; \<open>log_event\<close> is kept in the trace. \<open>malloc\<close> succeeds. An
  \<open>OVSREC_..._FOR_EACH\<close> loop visits the rows present when it starts: the client library could only
  change them during a blocking commit. A transaction's writes go to the replica at once, and
  \<open>txn_commit_block\<close> says what is left of them: any replica at all, except where \<open>commit_atomic\<close> or \<open>commits\<close>
  is a hypothesis. Both leave out that changes of other clients may arrive while the commit blocks; such a change
  is one of the next turn's replica. The number of fans that \<open>count_fans\<close> returns as an \<open>int\<close> is a natural
  number, and the direction of a fresh fan is some string: nothing reads it before a status has been read.

  \<^bold>\<open>Not modelled.\<close> What the libraries do inside the calls: the repository does not hold them. Signals,
  the title of the process and the fork of \<open>daemonize_start\<close> have no state in the daemon; they are calls
  of \<open>Fand_Process\<close> only. Help texts of the commands. The tests under \<open>ops-tests\<close> and \<open>tests\<close>.
  What is left of the sources are comments, includes, prototypes and logging.
\<close>

section \<open>Properties that span components\<close>

text \<open>
  C9: from the command line to the fans. When \<open>fan-speed w\<close> succeeds and the daemon then sees the
  database it left, the reconfiguration completes, and the first subsystem, if the daemon could add it,
  runs at the level \<open>w\<close>, unless a sensor asks for max: then it runs at max.
\<close>

theorem fan_speed_reaches_daemon:
  assumes "vtysh_ok V" "cli_txn_ok V" "w \<in> set fan_speed_words"
    and "vtysh_fan_speed V w i = (CMD_SUCCESS, idl st)" "idl_subsystems i = row # rows"
    and "platform_ok P" "fand_inv P st" "distinct (map os_name (row # rows))"
    and "idl_get_seqno (idl st) \<noteq> idl_seqno st"
  shows "\<exists>st'. fand_reconfigure P st = Inr st' \<and>
    (\<forall>a ss. subsys_mem st' a = Some ss \<and> ls_name ss = os_name row \<longrightarrow>
       fan_speed_enum_to_string (speed ss) =
         (if highest_speed (os_temp_sensors row) = FAND_SPEED_MAX then ''max'' else w))"
proof -
  have key: "fan_speed_override_str V = ''fan_speed_override''" using assms(1) by (simp add: vtysh_ok_def)
  let ?row = "row\<lparr>os_other_config := (os_other_config row)(''fan_speed_override'' \<mapsto> w)\<rparr>"
  from fan_speed_set_result [OF assms(2) assms(4) [unfolded vtysh_fan_speed_def]]
  have subs: "idl_subsystems (idl st) = ?row # rows" by (simp add: with_override_def assms(5) key)
  have P: "shash_ok P" "yaml_ok P" "fan_names_ok P" using assms(6) by (simp_all add: platform_ok_def)
  have "distinct (map os_name (idl_subsystems (idl st)))" using assms(8) by (simp add: subs)
  from post_total [OF fand_reconfigure_changed [OF P assms(7) this assms(9)]] obtain st'
    where run: "fand_reconfigure P st = Inr st'" and r: "reconfigured P st st'" by blast
  have level: "fan_speed_string_to_enum (Some w) \<noteq> FAND_SPEED_NONE"
    "fan_speed_enum_to_string (fan_speed_string_to_enum (Some w)) = w"
    "fan_speed_enum_to_string FAND_SPEED_MAX = ''max''"
    using assms(3) by (auto simp: fan_speed_words_def fan_speed_string_to_enum_def fanspeed_string_def
        fanspeed_of_def fan_speed_enum_to_string_def)
  have "fan_speed_enum_to_string (speed ss) =
      (if highest_speed (os_temp_sensors row) = FAND_SPEED_MAX then ''max'' else w)"
    if ss: "subsys_mem st' a = Some ss" "ls_name ss = os_name row" for a ss
  proof -
    from r ss(1) obtain cfg where cfg: "cfg \<in> set (?row # rows)" "follows cfg ss"
      unfolding reconfigured_def subs by blast
    then have eq: "configured cfg ss = ss" "ls_name ss = os_name cfg" by (simp_all add: follows_def)
    have "cfg = ?row" using cfg(1) eq(2) ss(2) assms(8) by (auto simp: image_iff)
    then have f: "fan_speed ss = highest_speed (os_temp_sensors row)"
      "fan_speed_override ss = fan_speed_string_to_enum (Some w)" "speed ss = fand_choose_speed ss"
      using configured_simps(5,6) [of cfg ss] configured_speed [of cfg ss] unfolding eq(1) by simp_all
    show ?thesis unfolding f(3) fand_choose_speed_def f(1,2) using level by simp
  qed
  with run show ?thesis by blast
qed

lemma fan_speed_reaches_daemon_run:
  "\<exists>st' ss. fand_reconfigure S (sample_running\<lparr>idl := with_override ''fan_speed_override'' (Some ''fast'') base_idl\<rparr>) = Inr st' \<and>
    subsys_mem st' 0 = Some ss \<and> fan_speed_enum_to_string (speed ss) = ''max''"
proof -
  let ?i = "with_override ''fan_speed_override'' (Some ''fast'') base_idl"
  let ?st = "sample_running\<lparr>idl := ?i\<rparr>"
  have 1: "''fast'' \<in> set fan_speed_words" by (simp add: fan_speed_words_def)
  have 2: "vtysh_fan_speed sample_shell ''fast'' base_idl = (CMD_SUCCESS, idl ?st)" by (simp add: sample_commands)
  have 3: "idl_subsystems base_idl = base_row # []" "distinct (map os_name (base_row # []))"
    by (simp_all add: base_idl_def sample_idl_def)
  have 4: "fand_inv S ?st" using running_inv by simp
  have 5: "idl_get_seqno (idl ?st) \<noteq> idl_seqno ?st" "distinct (map os_name (idl_subsystems (idl ?st)))"
    "os_name ` set (idl_subsystems (idl ?st)) = {''base''}"
    by (simp_all add: with_override_def base_idl_def sample_idl_def base_row_def sample_subsystem_def)
  have 6: "highest_speed (os_temp_sensors base_row) = FAND_SPEED_MAX" "os_name base_row = ''base''"
    by code_simp+
  from fan_speed_reaches_daemon [OF sample_shell_ok(1,2) 1 2 3(1) platform_sample 4 3(2) 5(1)] obtain st'
    where run: "fand_reconfigure S ?st = Inr st'"
      and lvl: "\<forall>a ss. subsys_mem st' a = Some ss \<and> ls_name ss = ''base'' \<longrightarrow> fan_speed_enum_to_string (speed ss) = ''max''"
    using 6 by auto
  from fand_reconfigure_changed [OF sample_shash sample_yaml sample_names 4 5(2,1)] run
  have "\<forall>a ss. subsys_mem ?st a = Some ss \<and> valid ss \<and> ls_name ss \<in> os_name ` set (idl_subsystems (idl ?st)) \<longrightarrow>
      (\<exists>ss'. subsys_mem st' a = Some ss' \<and> ls_name ss' = ls_name ss \<and> subsystem_fans ss' = subsystem_fans ss)"
    unfolding reconfigured_def by simp
  from this [rule_format, of 0 base_subsystem] obtain ss
    where "subsys_mem st' 0 = Some ss" "ls_name ss = ''base''"
    unfolding 5(3) by (auto simp: base_subsystem_def)
  with run lvl show ?thesis by blast
qed

text \<open>
  C40: the names in the database mean the levels, directions and states in the code: each enumerator has
  the name it is called by, no name reads as no speed, front to back or uninitialized, and so does, for a
  speed, any string that is no name. Reading back what was printed gives the same value, or the default
  of the table for a value without a name; printing what was read gives the same name, or the default's
  name for a string that is no name.
\<close>

theorem enum_names_roundtrip:
  "map fan_speed_enum_to_string [FAND_SPEED_SLOW, FAND_SPEED_NORMAL, FAND_SPEED_MEDIUM, FAND_SPEED_FAST, FAND_SPEED_MAX] =
     [''slow'', ''normal'', ''medium'', ''fast'', ''max''] \<and>
   map fan_direction_enum_to_string [FAND_DIRECTION_F2B, FAND_DIRECTION_B2F] = [''f2b'', ''b2f''] \<and>
   map fan_status_enum_to_string [FAND_STATUS_UNINITIALIZED, FAND_STATUS_OK, FAND_STATUS_FAULT] =
     [''uninitialized'', ''ok'', ''fault''] \<and>
   fan_speed_string_to_enum None = FAND_SPEED_NONE \<and> fan_direction_string_to_enum None = FAND_DIRECTION_F2B \<and>
   fan_status_string_to_enum None = FAND_STATUS_UNINITIALIZED \<and>
   (fan_speed_string_to_enum (Some n) = FAND_SPEED_NONE \<longleftrightarrow> n \<notin> {''slow'', ''normal'', ''medium'', ''fast'', ''max''}) \<and>
   fan_speed_string_to_enum (Some (fan_speed_enum_to_string s)) =
     (if FAND_SPEED_SLOW \<le> s \<and> s \<le> FAND_SPEED_MAX then s else FAND_SPEED_NORMAL) \<and>
   fan_speed_enum_to_string (fan_speed_string_to_enum (Some n)) =
     (if n \<in> {''slow'', ''normal'', ''medium'', ''fast'', ''max''} then n else ''normal'') \<and>
   fan_direction_string_to_enum (Some (fan_direction_enum_to_string d)) =
     (if d = FAND_DIRECTION_B2F then d else FAND_DIRECTION_F2B) \<and>
   fan_direction_enum_to_string (fan_direction_string_to_enum (Some n)) =
     (if n = ''b2f'' then n else ''f2b'') \<and>
   fan_status_string_to_enum (Some (fan_status_enum_to_string t)) =
     (if t \<in> {FAND_STATUS_OK, FAND_STATUS_FAULT} then t else FAND_STATUS_UNINITIALIZED) \<and>
   fan_status_enum_to_string (fan_status_string_to_enum (Some n)) =
     (if n \<in> {''ok'', ''fault''} then n else ''uninitialized'')"
proof (intro conjI)
  show "map fan_speed_enum_to_string [FAND_SPEED_SLOW, FAND_SPEED_NORMAL, FAND_SPEED_MEDIUM, FAND_SPEED_FAST, FAND_SPEED_MAX] =
      [''slow'', ''normal'', ''medium'', ''fast'', ''max'']"
    by (simp add: fan_speed_enum_to_string_def fanspeed_string_def)
  show "map fan_direction_enum_to_string [FAND_DIRECTION_F2B, FAND_DIRECTION_B2F] = [''f2b'', ''b2f'']"
    by simp
  show "map fan_status_enum_to_string [FAND_STATUS_UNINITIALIZED, FAND_STATUS_OK, FAND_STATUS_FAULT] =
      [''uninitialized'', ''ok'', ''fault'']"
    by (simp add: fan_status_enum_to_string_def fanstatus_string_def)
  show "fan_speed_string_to_enum None = FAND_SPEED_NONE" "fan_direction_string_to_enum None = FAND_DIRECTION_F2B"
    "fan_status_string_to_enum None = FAND_STATUS_UNINITIALIZED"
    by (simp_all add: speed_table.of_string_NULL direction_table.of_string_NULL status_table.of_string_NULL)
  show "fan_speed_string_to_enum (Some n) = FAND_SPEED_NONE \<longleftrightarrow> n \<notin> {''slow'', ''normal'', ''medium'', ''fast'', ''max''}"
    by (auto simp: fan_speed_string_to_enum_def fanspeed_string_def fanspeed_of_def)
  have speed: "fan_speed_enum_to_string FAND_SPEED_NONE = ''normal''"
    and status: "fan_status_enum_to_string FAND_STATUS_UNINITIALIZED = ''uninitialized''"
    by (simp_all add: fan_speed_enum_to_string_def fan_status_enum_to_string_def fanspeed_string_def fanstatus_string_def)
  show "fan_speed_string_to_enum (Some (fan_speed_enum_to_string s)) =
      (if FAND_SPEED_SLOW \<le> s \<and> s \<le> FAND_SPEED_MAX then s else FAND_SPEED_NORMAL)"
    by (simp only: speed_table.read_back speed_named_iff) (simp add: fanspeed_of_def)
  show "fan_speed_enum_to_string (fan_speed_string_to_enum (Some n)) =
      (if n \<in> {''slow'', ''normal'', ''medium'', ''fast'', ''max''} then n else ''normal'')"
    by (simp only: speed_table.print_back speed) (simp add: fanspeed_string_def)
  show "fan_direction_string_to_enum (Some (fan_direction_enum_to_string d)) =
      (if d = FAND_DIRECTION_B2F then d else FAND_DIRECTION_F2B)"
    by (simp only: direction_table.read_back direction_named_iff) (simp add: fandirection_of_def)
  show "fan_direction_enum_to_string (fan_direction_string_to_enum (Some n)) = (if n = ''b2f'' then n else ''f2b'')"
    by (simp only: direction_table.print_back fan_direction_enum_to_string_simps) (simp add: fandirection_string_def)
  show "fan_status_string_to_enum (Some (fan_status_enum_to_string t)) =
      (if t \<in> {FAND_STATUS_OK, FAND_STATUS_FAULT} then t else FAND_STATUS_UNINITIALIZED)"
    by (simp only: status_table.read_back status_named_iff) (simp add: fanstatus_of_def)
  show "fan_status_enum_to_string (fan_status_string_to_enum (Some n)) =
      (if n \<in> {''ok'', ''fault''} then n else ''uninitialized'')"
    by (simp only: status_table.print_back status) (simp add: fanstatus_string_def)
qed

text \<open>
  C19: what an operator sees. After a completed reading of the status whose transaction is committed,
  \<open>show system fan\<close> does not fail: it prints the header, one line per Fan row and the override, and each
  line is that of a cached fan with its name, freshly read direction, status and rpm and the speed of its
  subsystem.
\<close>

theorem show_after_status:
  assumes "shash_ok P" "yaml_ok P" "commits P" "fand_inv P st" "fand_read_status P st = Inr st'"
    and "rpm_reads V" "idl_subsystems (idl st) = s # ss"
  shows "\<exists>ls. length ls = length (idl_fans (idl st)) \<and>
    vtysh_show_system_fan V (idl st') = Inr (fan_table_header V @ concat (map (\<lambda>l. l @ vty_newline V) ls)
      @ fan_table_footer V s) \<and>
    (\<forall>l \<in> set ls. \<exists>p f sub. fan_mem st' p = Some f \<and> subsys_mem st (subsystem f) = Some sub \<and> fan_wf f \<and>
       l = pad_right 13 (lf_name f) @ pad_right 7 (fan_speed_enum_to_string (speed sub)) @
         pad_right 15 (if direction f = ''f2b'' then ''front-to-back'' else ''back-to-front'') @
         pad_right 14 (fan_status_enum_to_string (status f)) @ pad_right 8 (dec_int (sint (rpm f))))"
proof -
  have read: "status_read P st st'" using fand_read_status_post [OF assms(1,2,4)] assms(5) by simp
  note row = status_read_row [OF assms(1,3) read]
  let ?ls = "map (\<lambda>r. fan_line r (the (of_rpm r))) (idl_fans (idl st'))"
  have "\<forall>r \<in> set (idl_fans (idl st')). of_rpm r \<noteq> None" using row by force
  moreover have "idl_subsystems (idl st') = s # ss" using status_read_subsystems [OF assms(3) read] assms(7) by simp
  ultimately have "vtysh_show_system_fan V (idl st') =
      Inr (fan_table_header V @ concat (map (\<lambda>l. l @ vty_newline V) ?ls) @ fan_table_footer V s)"
    using show_system_fan_eq [OF assms(6)] by (simp add: o_def)
  moreover have "\<exists>p f sub. fan_mem st' p = Some f \<and> subsys_mem st (subsystem f) = Some sub \<and> fan_wf f \<and>
      l = pad_right 13 (lf_name f) @ pad_right 7 (fan_speed_enum_to_string (speed sub)) @
         pad_right 15 (if direction f = ''f2b'' then ''front-to-back'' else ''back-to-front'') @
         pad_right 14 (fan_status_enum_to_string (status f)) @ pad_right 8 (dec_int (sint (rpm f)))"
    if "l \<in> set ?ls" for l
  proof -
    from that obtain r where r: "r \<in> set (idl_fans (idl st'))" "l = fan_line r (the (of_rpm r))" by auto
    from row [OF r(1)] obtain p f sub where f: "fan_mem st' p = Some f" "subsys_mem st (subsystem f) = Some sub" "fan_wf f"
      "lf_name f = of_name r" "of_speed r = fan_speed_enum_to_string (speed sub)" "of_direction r = direction f"
      "of_status r = fan_status_enum_to_string (status f)" "of_rpm r = Some (sint (rpm f))" by blast
    then show ?thesis
      by (intro exI [of _ p] exI [of _ f] exI [of _ sub]) (auto simp: r(2) fan_line_def fan_wf_def)
  qed
  moreover have "length ?ls = length (idl_fans (idl st))"
    using status_read_names [OF assms(1,3) read] by (metis length_map)
  ultimately show ?thesis by blast
qed

lemma show_after_status_run:
  "\<exists>st' ls. fand_read_status S sample_running = Inr st' \<and> length ls = 3 \<and>
    vtysh_show_system_fan sample_shell (idl st') =
      Inr (fan_table_header sample_shell @ concat (map (\<lambda>l. l @ ''\<newline>'') ls) @ fan_table_footer sample_shell base_row)"
proof -
  have "\<not> isl (fand_read_status S sample_running)" by code_simp
  then obtain st' where run: "fand_read_status S sample_running = Inr st'"
    by (cases "fand_read_status S sample_running") auto
  have "idl_subsystems (idl sample_running) = base_row # []" by (simp add: base_idl_def sample_idl_def)
  from show_after_status [OF sample_shash sample_yaml sample_commits running_inv run sample_shell_ok(3) this]
  obtain ls where "length ls = length (idl_fans base_idl)" "vtysh_show_system_fan sample_shell (idl st') =
      Inr (fan_table_header sample_shell @ concat (map (\<lambda>l. l @ vty_newline sample_shell) ls)
        @ fan_table_footer sample_shell base_row)"
    unfolding running_simps by blast
  moreover have "length (idl_fans base_idl) = 3" "vty_newline sample_shell = ''\<newline>''"
    by (simp_all add: base_idl_def sample_shell_def)
  ultimately show ?thesis using run by (intro exI [of _ st'] exI [of _ ls]) simp
qed

end
